theory Spec2Isabelle
  imports Main "HOL-Library.Word"
begin

section \<open>Reputation reprocessing (reputation/reprocess.go)\<close>

subsection \<open>Basic types\<close>

text \<open>
  Go's \<open>int64\<close> and \<open>int\<close> (64 bits on the platforms the bot runs on) are 64-bit words, so
  every \<open>++\<close> and \<open>+=\<close> of the source wraps as it does in Go. Points in time are integers
  (nanoseconds), \<open>t.Before(u)\<close> is \<open>t < u\<close>.
\<close>

type_synonym int64 = "64 word"
type_synonym time = int

datatype error = context_Canceled | external_error string

record User =
  user_ID :: int64
  Bot :: bool

text \<open>
  A \<open>discordgo.Message\<close>, with the fields the scanner reads. The field \<open>Timestamp\<close> holds
  the outcome of \<open>msg.Timestamp.Parse()\<close>: \<open>None\<close> when parsing fails.
\<close>

record Message =
  msg_ID :: int64
  Author :: User
  Content :: string
  Timestamp :: "time option"

record ReputationConfig =
  DisableThanksDetection :: bool

subsection \<open>Pattern matcher\<close>

text \<open>
  The two patterns are \<open>(?i)!giverep\s+<@!?(\d+)>\<close> and \<open>(?i)thanks\s+<@!?(\d+)>\<close>.
  Both are a case-insensitive literal followed by the same tail, and both are deterministic:
  a whitespace run can only end before \<open><\<close> and a digit run only before \<open>>\<close>, so the greedy
  choice is the only one. Strings are byte strings (UTF-8). Under \<open>(?i)\<close> Go folds by Unicode
  simple case folding: besides the two ASCII cases, \<open>k\<close> also matches U+212A (bytes E2 84 AA)
  and \<open>s\<close> also matches U+017F (bytes C5 BF).
\<close>

definition is_space :: "char \<Rightarrow> bool" where
  "is_space c \<longleftrightarrow> c \<in> set [CHR 0x09, CHR 0x0A, CHR 0x0C, CHR 0x0D, CHR 0x20]"

definition is_digit :: "char \<Rightarrow> bool" where
  "is_digit c \<longleftrightarrow> 48 \<le> (of_char c :: nat) \<and> (of_char c :: nat) \<le> 57"

definition is_lower :: "char \<Rightarrow> bool" where
  "is_lower c \<longleftrightarrow> 97 \<le> (of_char c :: nat) \<and> (of_char c :: nat) \<le> 122"

text \<open>For a lower-case ASCII letter, clearing bit 5 is subtracting 32.\<close>

definition to_upper :: "char \<Rightarrow> char" where
  "to_upper c =
     (case c of Char b0 b1 b2 b3 b4 b5 b6 b7 \<Rightarrow> Char b0 b1 b2 b3 b4 False b6 b7)"

definition fold_alts :: "char \<Rightarrow> string list" where
  "fold_alts c =
     (if is_lower c then
        [[c], [to_upper c]] @
        (if c = CHR ''k'' then [[CHR 0xE2, CHR 0x84, CHR 0xAA]]
         else if c = CHR ''s'' then [[CHR 0xC5, CHR 0xBF]] else [])
      else [[c]])"

fun strip_prefix :: "string \<Rightarrow> string \<Rightarrow> string option" where
  "strip_prefix [] s = Some s"
| "strip_prefix (p # ps) [] = None"
| "strip_prefix (p # ps) (c # cs) = (if p = c then strip_prefix ps cs else None)"

fun first_alt :: "string list \<Rightarrow> string \<Rightarrow> string option" where
  "first_alt [] s = None"
| "first_alt (a # as) s =
     (case strip_prefix a s of Some r \<Rightarrow> Some r | None \<Rightarrow> first_alt as s)"

fun match_fold :: "string \<Rightarrow> string \<Rightarrow> string option" where
  "match_fold [] s = Some s"
| "match_fold (p # ps) s =
     (case first_alt (fold_alts p) s of None \<Rightarrow> None | Some r \<Rightarrow> match_fold ps r)"

text \<open>The tail \<open>\s+<@!?(\d+)>\<close>; the result is the text of the capture group.\<close>

definition match_mention :: "string \<Rightarrow> string option" where
  "match_mention s =
     (case s of
        [] \<Rightarrow> None
      | c # _ \<Rightarrow>
          if \<not> is_space c then None
          else (case strip_prefix ''<@'' (dropWhile is_space s) of
                  None \<Rightarrow> None
                | Some r \<Rightarrow>
                    let r' = (case r of [] \<Rightarrow> r | x # t \<Rightarrow> if x = CHR ''!'' then t else r);
                        d = takeWhile is_digit r'
                    in if d = [] then None
                       else (case dropWhile is_digit r' of
                               [] \<Rightarrow> None
                             | y # _ \<Rightarrow> if y = CHR ''>'' then Some d else None)))"

definition match_at :: "string \<Rightarrow> string \<Rightarrow> string option" where
  "match_at lit s = (case match_fold lit s of None \<Rightarrow> None | Some r \<Rightarrow> match_mention r)"

text \<open>
  \<open>FindStringSubmatch\<close>: the leftmost match; \<open>None\<close> is Go's \<open>nil\<close>, \<open>Some d\<close> gives
  \<open>matches[1]\<close>.
\<close>

fun FindStringSubmatch :: "string \<Rightarrow> string \<Rightarrow> string option" where
  "FindStringSubmatch lit [] = match_at lit []"
| "FindStringSubmatch lit (c # cs) =
     (case match_at lit (c # cs) of
        Some d \<Rightarrow> Some d
      | None \<Rightarrow> FindStringSubmatch lit cs)"

definition giveRepPattern :: string where
  "giveRepPattern = ''!giverep''"

definition thanksPattern :: string where
  "thanksPattern = ''thanks''"

subsection \<open>Parsing the mention\<close>

text \<open>
  \<open>strconv.ParseInt(s, 10, 64)\<close> on the strings that reach it here, which are nonempty
  digit runs: the value, or a range error above \<open>2^63 - 1\<close>.
\<close>

definition digit_val :: "char \<Rightarrow> nat" where
  "digit_val c = (of_char c :: nat) - 48"

definition decimal :: "string \<Rightarrow> nat" where
  "decimal s = foldl (\<lambda>a c. 10 * a + digit_val c) 0 s"

definition ParseInt :: "string \<Rightarrow> int64 option" where
  "ParseInt s =
     (if s = [] \<or> \<not> list_all is_digit s then None
      else if decimal s \<le> 9223372036854775807 then Some (of_nat (decimal s))
      else None)"

text \<open>
  Modelled from the spec: \<open>common.MustParseInt\<close> is not among the sources. The spec speaks of
  "the zero/unparseable value" and says that an unparseable ID is ignored, so an unparseable
  string yields the zero value.
\<close>

definition MustParseInt :: "string \<Rightarrow> int64" where
  "MustParseInt s = (case ParseInt s of Some v \<Rightarrow> v | None \<Rightarrow> 0)"

subsection \<open>Reputation deltas\<close>

text \<open>
  A \<open>map[int64]int64\<close> is an association list with distinct keys; a missing key reads as
  Go's zero value. \<open>add_at u a m\<close> is \<open>m[u] += a\<close>, which creates the entry when it is missing.
  Go iterates a map in no fixed order; the model iterates in the order of insertion.
\<close>

type_synonym delta = "(int64 \<times> int64) list"

definition lookup :: "delta \<Rightarrow> int64 \<Rightarrow> int64" where
  "lookup m u = (case map_of m u of None \<Rightarrow> 0 | Some v \<Rightarrow> v)"

fun add_at :: "int64 \<Rightarrow> int64 \<Rightarrow> delta \<Rightarrow> delta" where
  "add_at u a [] = [(u, a)]"
| "add_at u a ((k, v) # m) = (if k = u then (k, v + a) # m else (k, v) # add_at u a m)"

subsection \<open>The channel scanner\<close>

text \<open>
  One iteration of the loop over a page. \<open>Return\<close> is the \<open>return processed, repChanges, nil\<close>
  at the cutoff; \<open>Next\<close> is every way of going on to the next message.
\<close>

datatype scan = Return int64 delta | Next int64 delta

definition grant :: "Message \<Rightarrow> string \<Rightarrow> delta \<Rightarrow> delta" where
  "grant msg d repChanges =
     (let userID = MustParseInt d
      in if userID \<noteq> 0 \<and> userID \<noteq> user_ID (Author msg)
         then add_at userID 1 repChanges else repChanges)"

definition scanMessage :: "time \<Rightarrow> ReputationConfig \<Rightarrow> Message \<Rightarrow> int64 \<Rightarrow> delta \<Rightarrow> scan" where
  "scanMessage since conf msg processed repChanges =
     (case Timestamp msg of
        None \<Rightarrow> Next processed repChanges
      | Some msgTime \<Rightarrow>
          if msgTime < since then Return processed repChanges
          else if Bot (Author msg) then Next (processed + 1) repChanges
          else (case FindStringSubmatch giveRepPattern (Content msg) of
                  Some d \<Rightarrow> Next (processed + 1) (grant msg d repChanges)
                | None \<Rightarrow>
                    if \<not> DisableThanksDetection conf then
                      (case FindStringSubmatch thanksPattern (Content msg) of
                         Some d \<Rightarrow> Next (processed + 1) (grant msg d repChanges)
                       | None \<Rightarrow> Next (processed + 1) repChanges)
                    else Next (processed + 1) repChanges))"

fun scanPage :: "time \<Rightarrow> ReputationConfig \<Rightarrow> Message list \<Rightarrow> int64 \<Rightarrow> delta \<Rightarrow> scan" where
  "scanPage since conf [] processed repChanges = Next processed repChanges"
| "scanPage since conf (msg # msgs) processed repChanges =
     (case scanMessage since conf msg processed repChanges of
        Return p c \<Rightarrow> Return p c
      | Next p c \<Rightarrow> scanPage since conf msgs p c)"

text \<open>
  The caller's context. Cancellation comes from outside and at any moment; the model fixes
  the moment by the number of \<open>ctx.Done()\<close> checks that still pass: \<open>None\<close> is a context that
  is never cancelled, \<open>Some n\<close> one whose cancellation is seen by the check after \<open>n\<close> more
  have passed. Once \<open>Done\<close> is closed it stays closed.
\<close>

type_synonym Context = "nat option"

definition ctx_Done :: "Context \<Rightarrow> bool" where
  "ctx_Done ctx \<longleftrightarrow> ctx = Some 0"

definition ctx_Err :: "Context \<Rightarrow> error" where
  "ctx_Err ctx = context_Canceled"

definition ctx_next :: "Context \<Rightarrow> Context" where
  "ctx_next ctx = (case ctx of None \<Rightarrow> None | Some n \<Rightarrow> Some (n - 1))"

text \<open>
  The loop of \<open>processChannel\<close>. \<open>ChannelMessages channelID limit beforeID\<close> is the call
  \<open>common.BotSession.ChannelMessages(channelID, limit, beforeID, 0, 0)\<close>, a parameter. The
  message source can go on returning pages for ever, so the loop is a partial function:
  \<open>None\<close> is a scan that does not return. The result carries the context as the scan left it.
  The one-second sleeps have no effect on the values computed and are left out.
\<close>

type_synonym fetch = "int64 \<Rightarrow> int \<Rightarrow> int64 \<Rightarrow> error + Message list"

partial_function (option) processChannel_loop ::
  "fetch \<Rightarrow> int64 \<Rightarrow> time \<Rightarrow> ReputationConfig \<Rightarrow> Context \<Rightarrow> int64 \<Rightarrow> delta \<Rightarrow> int64
    \<Rightarrow> ((int64 \<times> delta \<times> error option) \<times> Context) option"
where
  "processChannel_loop ChannelMessages channelID since conf ctx processed repChanges beforeID =
     (if ctx_Done ctx then Some ((processed, repChanges, Some (ctx_Err ctx)), ctx)
      else
        (case (if beforeID = 0 then ChannelMessages channelID 100 0
               else ChannelMessages channelID 100 beforeID) of
           Inl err \<Rightarrow> Some ((processed, repChanges, Some err), ctx_next ctx)
         | Inr messages \<Rightarrow>
             if messages = [] then Some ((processed, repChanges, None), ctx_next ctx)
             else
               (case scanPage since conf messages processed repChanges of
                  Return p c \<Rightarrow> Some ((p, c, None), ctx_next ctx)
                | Next p c \<Rightarrow>
                    processChannel_loop ChannelMessages channelID since conf (ctx_next ctx)
                      p c (msg_ID (last messages)))))"

declare processChannel_loop.simps [code]

definition processChannel ::
  "fetch \<Rightarrow> Context \<Rightarrow> int64 \<Rightarrow> time \<Rightarrow> ReputationConfig
    \<Rightarrow> ((int64 \<times> delta \<times> error option) \<times> Context) option"
where
  "processChannel ChannelMessages ctx channelID since conf =
     processChannel_loop ChannelMessages channelID since conf ctx 0 [] 0"

text \<open>Notions the statements about the scanner use.\<close>

definition before_cutoff :: "time \<Rightarrow> Message \<Rightarrow> bool" where
  "before_cutoff since msg = (case Timestamp msg of None \<Rightarrow> False | Some t \<Rightarrow> t < since)"

definition parsed :: "Message \<Rightarrow> bool" where
  "parsed msg = (case Timestamp msg of None \<Rightarrow> False | Some t \<Rightarrow> True)"

subsection \<open>The orchestrator\<close>

record ChannelState =
  chan_ID :: int64
  Type :: int

definition ChannelTypeGuildText :: int where
  "ChannelTypeGuildText = 0"

record GuildSet =
  guild_ID :: int64
  Channels :: "ChannelState list"

record reprocessStats =
  MessagesProcessed :: int64
  RepGiven :: int64
  UsersAffected :: int64

definition Add :: "reprocessStats \<Rightarrow> int64 \<Rightarrow> int64 \<Rightarrow> reprocessStats" where
  "Add s messages rep =
     s\<lparr>MessagesProcessed := MessagesProcessed s + messages, RepGiven := RepGiven s + rep\<rparr>"

definition SetUsers :: "reprocessStats \<Rightarrow> int64 \<Rightarrow> reprocessStats" where
  "SetUsers s n = s\<lparr>UsersAffected := n\<rparr>"

definition Get :: "reprocessStats \<Rightarrow> int64 \<times> int64 \<times> int64" where
  "Get s = (MessagesProcessed s, RepGiven s, UsersAffected s)"

text \<open>
  What the run does to the outside is kept as a trace. A message to the destination channel
  is recorded by the values its text is formatted from; a call of \<open>insertUpdateUserRep\<close> is
  recorded with its arguments and its outcome. A failure to send is only logged by the
  source and changes nothing here.
\<close>

datatype notice =
    ChannelFailed int64 error
  | UserFailed int64 error
  | Summary int64 int64

datatype effect =
    sendErrorMessage int64 notice
  | insertUpdateUserRep int64 int64 int64 "error option"

text \<open>
  \<open>insertUpdateUserRep(ctx, guildID, userID, amount)\<close> is not among the sources and is a
  parameter; only its error is used.
\<close>

type_synonym upsert = "Context \<Rightarrow> int64 \<Rightarrow> int64 \<Rightarrow> int64 \<Rightarrow> error option"

text \<open>The local variables of \<open>reprocessMessages\<close>, with the context and the trace.\<close>

record run =
  ctx :: Context
  stats :: reprocessStats
  repChanges :: delta
  channelErrors :: int64
  uniqueUsers :: int64
  userErrors :: int64
  trace :: "effect list"

definition start :: "Context \<Rightarrow> run" where
  "start c =
     \<lparr>ctx = c,
      stats = \<lparr>MessagesProcessed = 0, RepGiven = 0, UsersAffected = 0\<rparr>,
      repChanges = [], channelErrors = 0, uniqueUsers = 0, userErrors = 0, trace = []\<rparr>"

definition repCount :: "delta \<Rightarrow> int64" where
  "repCount changes = foldl (\<lambda>n (userID, amount). n + amount) 0 changes"

definition aggregate :: "delta \<Rightarrow> delta \<Rightarrow> delta" where
  "aggregate acc changes = foldl (\<lambda>m (userID, amount). add_at userID amount m) acc changes"

text \<open>The loop over the channels. A scan that does not return leaves the run without result.\<close>

fun scanChannels ::
  "fetch \<Rightarrow> int64 \<Rightarrow> time \<Rightarrow> ReputationConfig \<Rightarrow> ChannelState list \<Rightarrow> run \<Rightarrow> run option"
where
  "scanChannels ChannelMessages channelID fiveYearsAgo conf [] s = Some s"
| "scanChannels ChannelMessages channelID fiveYearsAgo conf (channel # channels) s =
     (if Type channel \<noteq> ChannelTypeGuildText
      then scanChannels ChannelMessages channelID fiveYearsAgo conf channels s
      else
        (case processChannel ChannelMessages (ctx s) (chan_ID channel) fiveYearsAgo conf of
           None \<Rightarrow> None
         | Some ((processed, changes, err), ctx') \<Rightarrow>
             (case err of
                Some e \<Rightarrow>
                  scanChannels ChannelMessages channelID fiveYearsAgo conf channels
                    (s\<lparr>ctx := ctx',
                       channelErrors := channelErrors s + 1,
                       trace := trace s @
                         [sendErrorMessage channelID (ChannelFailed (chan_ID channel) e)]\<rparr>)
              | None \<Rightarrow>
                  scanChannels ChannelMessages channelID fiveYearsAgo conf channels
                    (s\<lparr>ctx := ctx',
                       stats := Add (stats s) processed (repCount changes),
                       repChanges := aggregate (repChanges s) changes\<rparr>))))"

text \<open>The loop that applies the aggregated changes to the database.\<close>

fun applyChanges :: "upsert \<Rightarrow> int64 \<Rightarrow> int64 \<Rightarrow> delta \<Rightarrow> run \<Rightarrow> run" where
  "applyChanges upsertRep guildID channelID [] s = s"
| "applyChanges upsertRep guildID channelID ((userID, amount) # rest) s =
     (if amount = 0 then applyChanges upsertRep guildID channelID rest s
      else
        (case upsertRep (ctx s) guildID userID amount of
           Some e \<Rightarrow>
             applyChanges upsertRep guildID channelID rest
               (s\<lparr>uniqueUsers := uniqueUsers s + 1,
                  userErrors := userErrors s + 1,
                  trace := trace s @
                    [insertUpdateUserRep guildID userID amount (Some e),
                     sendErrorMessage channelID (UserFailed userID e)]\<rparr>)
         | None \<Rightarrow>
             applyChanges upsertRep guildID channelID rest
               (s\<lparr>uniqueUsers := uniqueUsers s + 1,
                  trace := trace s @ [insertUpdateUserRep guildID userID amount None]\<rparr>)))"

definition summarize :: "int64 \<Rightarrow> run \<Rightarrow> run" where
  "summarize channelID s =
     (if word_sless 0 (channelErrors s) \<or> word_sless 0 (userErrors s)
      then s\<lparr>trace := trace s @
                [sendErrorMessage channelID (Summary (channelErrors s) (userErrors s))]\<rparr>
      else s)"

text \<open>
  \<open>reprocessMessages\<close>: the returned pair and the final state. \<open>fiveYearsAgo\<close> is
  \<open>time.Now().AddDate(-5, 0, 0)\<close>, taken as given. The progress reporter runs beside the
  scan and writes nothing that the run reads; it is modelled on its own below.
\<close>

definition reprocessMessages ::
  "fetch \<Rightarrow> upsert \<Rightarrow> time \<Rightarrow> Context \<Rightarrow> GuildSet \<Rightarrow> ReputationConfig \<Rightarrow> int64
    \<Rightarrow> ((reprocessStats \<times> error option) \<times> run) option"
where
  "reprocessMessages ChannelMessages upsertRep fiveYearsAgo c gs conf channelID =
     (case scanChannels ChannelMessages channelID fiveYearsAgo conf (Channels gs) (start c) of
        None \<Rightarrow> None
      | Some s1 \<Rightarrow>
          let s2 = applyChanges upsertRep (guild_ID gs) channelID (repChanges s1) s1;
              s3 = s2\<lparr>stats := SetUsers (stats s2) (uniqueUsers s2)\<rparr>;
              s4 = summarize channelID s3
          in Some ((stats s4, None), s4))"

subsection \<open>The progress reporter\<close>

text \<open>A \<open>time.Duration\<close> is an \<open>int64\<close> count of nanoseconds.\<close>

type_synonym Duration = int64

definition Second :: Duration where
  "Second = 1000000000"

definition Minute :: Duration where
  "Minute = 60 * Second"

definition Hour :: Duration where
  "Hour = 60 * Minute"

record updateInterval =
  duration :: Duration
  count :: int64

definition updateIntervals :: "updateInterval list" where
  "updateIntervals =
     [\<lparr>duration = 10 * Second, count = 5\<rparr>,
      \<lparr>duration = 1 * Minute, count = 5\<rparr>,
      \<lparr>duration = 1 * Hour, count = 5\<rparr>,
      \<lparr>duration = 24 * Hour, count = - 1\<rparr>]"

text \<open>
  The state of \<open>sendPeriodicUpdates\<close>: its two counters, the period of the ticker that is
  running, and the updates posted so far, each the triple read from the stats.
\<close>

record reporter =
  currentIntervalIdx :: nat
  updatesAtCurrentInterval :: int64
  ticker :: Duration
  posted :: "(int64 \<times> int64 \<times> int64) list"

definition reporter_start :: reporter where
  "reporter_start =
     \<lparr>currentIntervalIdx = 0, updatesAtCurrentInterval = 0,
      ticker = duration (updateIntervals ! 0), posted = []\<rparr>"

text \<open>
  The body of \<open>case <-ticker.C\<close>. An index outside \<open>updateIntervals\<close> panics in Go: \<open>None\<close>.
  The comparison of the two signed counters is the signed one.
\<close>

definition on_tick :: "reprocessStats \<Rightarrow> reporter \<Rightarrow> reporter option" where
  "on_tick st r =
     (let r1 = r\<lparr>posted := posted r @ [Get st],
                 updatesAtCurrentInterval := updatesAtCurrentInterval r + 1\<rparr>
      in if length updateIntervals \<le> currentIntervalIdx r1 then None
         else
           let currentInterval = updateIntervals ! currentIntervalIdx r1
           in if count currentInterval \<noteq> - 1
                 \<and> word_sle (count currentInterval) (updatesAtCurrentInterval r1)
              then
                if currentIntervalIdx r1 < length updateIntervals - 1
                then Some (r1\<lparr>currentIntervalIdx := currentIntervalIdx r1 + 1,
                               updatesAtCurrentInterval := 0,
                               ticker := duration (updateIntervals ! (currentIntervalIdx r1 + 1))\<rparr>)
                else Some r1
              else Some r1)"

text \<open>
  The \<open>select\<close> loop, driven by what the \<open>select\<close> receives each time round: a tick, with
  the stats as they are at that moment, or the stop signal. The result is the state at
  the end of the events, and whether the function has returned.
\<close>

datatype select = ticker_C reprocessStats | stopChan

fun sendPeriodicUpdates :: "select list \<Rightarrow> reporter \<Rightarrow> (reporter \<times> bool) option" where
  "sendPeriodicUpdates [] r = Some (r, False)"
| "sendPeriodicUpdates (stopChan # es) r = Some (r, True)"
| "sendPeriodicUpdates (ticker_C st # es) r =
     (case on_tick st r of None \<Rightarrow> None | Some r' \<Rightarrow> sendPeriodicUpdates es r')"

text \<open>The schedule in the spec's words: the period in force after \<open>n\<close> ticks.\<close>

definition schedule :: "nat \<Rightarrow> Duration" where
  "schedule n =
     (if n < 5 then 10 * Second else if n < 10 then Minute
      else if n < 15 then Hour else 24 * Hour)"

subsection \<open>The run and the reporter together\<close>

text \<open>
  \<open>reprocessMessages\<close> and the reporter goroutine share the stats (under its lock, so
  \<open>Add\<close>, \<open>SetUsers\<close> and \<open>Get\<close> are atomic), the stop channel and the wait group. The steps
  of the two that touch these, interleaved in any order the synchronisation allows:
  the run adds to the stats while it scans, closes \<open>stopChan\<close>, returns from \<open>wg.Wait()\<close>
  once the reporter has returned, and then sets the users; the reporter takes a tick
  whenever it is still running (a \<open>select\<close> with both channels ready may take either), and
  returns only when \<open>stopChan\<close> is closed.
\<close>

datatype phase = Scanning | Closed | Joined | Finished

record system =
  shared :: reprocessStats
  at :: phase
  goroutine :: reporter
  running :: bool

datatype action =
    run_Add int64 int64
  | run_close
  | run_Wait
  | run_SetUsers int64
  | reporter_tick
  | reporter_stop

definition system_start :: system where
  "system_start =
     \<lparr>shared = \<lparr>MessagesProcessed = 0, RepGiven = 0, UsersAffected = 0\<rparr>,
      at = Scanning, goroutine = reporter_start, running = True\<rparr>"

fun step :: "action \<Rightarrow> system \<Rightarrow> system option" where
  "step (run_Add messages rep) s =
     (if at s = Scanning then Some (s\<lparr>shared := Add (shared s) messages rep\<rparr>) else None)"
| "step run_close s =
     (if at s = Scanning then Some (s\<lparr>at := Closed\<rparr>) else None)"
| "step run_Wait s =
     (if at s = Closed \<and> \<not> running s then Some (s\<lparr>at := Joined\<rparr>) else None)"
| "step (run_SetUsers n) s =
     (if at s = Joined then Some (s\<lparr>shared := SetUsers (shared s) n, at := Finished\<rparr>)
      else None)"
| "step reporter_tick s =
     (if running s
      then (case on_tick (shared s) (goroutine s) of
              None \<Rightarrow> None
            | Some r \<Rightarrow> Some (s\<lparr>goroutine := r\<rparr>))
      else None)"
| "step reporter_stop s =
     (if running s \<and> at s \<noteq> Scanning then Some (s\<lparr>running := False\<rparr>) else None)"

fun exec :: "action list \<Rightarrow> system \<Rightarrow> system option" where
  "exec [] s = Some s"
| "exec (a # as) s = (case step a s of None \<Rightarrow> None | Some s' \<Rightarrow> exec as s')"

section \<open>The Salesforce status command\<close>

record SalesforceStatus =
  Key :: string
  Location :: string
  Environment :: string
  ReleaseVersion :: string
  Status :: string
  IsActive :: bool
  GeneralMessages :: "(string \<times> string) list"

record MessageEmbedField =
  Name :: string
  Value :: string
  Inline :: bool

record MessageEmbed =
  Title :: string
  Color :: int
  Fields :: "MessageEmbedField list"
  Footer :: string

text \<open>The four emoji, as their UTF-8 bytes.\<close>

definition emoji_check :: string where
  "emoji_check = [CHR 0xE2, CHR 0x9C, CHR 0x85]"

definition emoji_red :: string where
  "emoji_red = [CHR 0xF0, CHR 0x9F, CHR 0x94, CHR 0xB4]"

definition emoji_warning :: string where
  "emoji_warning = [CHR 0xE2, CHR 0x9A, CHR 0xA0, CHR 0xEF, CHR 0xB8, CHR 0x8F]"

definition emoji_question :: string where
  "emoji_question = [CHR 0xE2, CHR 0x9D, CHR 0x93]"

text \<open>The two variables, the assignment before the switch, and the switch.\<close>

record severity =
  statusColor :: int
  statusEmoji :: string

definition severity_default :: severity where
  "severity_default = \<lparr>statusColor = 0x2ECC71, statusEmoji = emoji_check\<rparr>"

definition status_switch :: "string \<Rightarrow> severity \<Rightarrow> severity" where
  "status_switch status v =
     (if status = ''OK''
      then v\<lparr>statusColor := 0x2ECC71, statusEmoji := emoji_check\<rparr>
      else if status = ''MAJOR_INCIDENT_CORE'' \<or> status = ''MAINTENANCE''
      then v\<lparr>statusColor := 0xE74C3C, statusEmoji := emoji_red\<rparr>
      else if status = ''MINOR_INCIDENT_CORE'' \<or> status = ''PERFORMANCE_DEGRADATION''
      then v\<lparr>statusColor := 0xF39C12, statusEmoji := emoji_warning\<rparr>
      else v\<lparr>statusColor := 0x95A5A6, statusEmoji := emoji_question\<rparr>)"

text \<open>\<open>fmt.Sprintf("%d", n)\<close> for a number that is not negative.\<close>

fun show_nat :: "nat \<Rightarrow> string" where
  "show_nat n =
     (if n < 10 then [char_of (48 + n)] else show_nat (n div 10) @ [char_of (48 + n mod 10)])"

definition truncateString :: "string \<Rightarrow> nat \<Rightarrow> string" where
  "truncateString s maxLen = (if length s \<le> maxLen then s else take maxLen s @ ''...'')"

text \<open>
  The loop over \<open>status.GeneralMessages\<close>, pairs of subject and body: \<open>i\<close> is the index,
  \<open>n\<close> the length of the whole list.
\<close>

fun messagesText :: "nat \<Rightarrow> nat \<Rightarrow> (string \<times> string) list \<Rightarrow> string \<Rightarrow> string" where
  "messagesText i n [] text = text"
| "messagesText i n ((subject, body) # msgs) text =
     (if 3 \<le> i then text @ [CHR 0x0A] @ ''...and '' @ show_nat (n - 3) @ '' more messages''
      else messagesText (i + 1) n msgs
             (text @ ''**'' @ subject @ ''**'' @ [CHR 0x0A] @ truncateString body 200
                @ [CHR 0x0A, CHR 0x0A]))"

text \<open>The embed that the command returns, from the parsed response and the two variables.\<close>

definition embed_of :: "SalesforceStatus \<Rightarrow> severity \<Rightarrow> MessageEmbed" where
  "embed_of status v =
     (let embed =
        \<lparr>Title = statusEmoji v @ '' Salesforce Instance: '' @ Key status,
         Color = statusColor v,
         Fields =
           [\<lparr>Name = ''Status'', Value = Status status, Inline = True\<rparr>,
            \<lparr>Name = ''Location'', Value = Location status, Inline = True\<rparr>,
            \<lparr>Name = ''Environment'', Value = Environment status, Inline = True\<rparr>,
            \<lparr>Name = ''Release Version'', Value = ReleaseVersion status, Inline = False\<rparr>],
         Footer = ''Active: '' @ (if IsActive status then ''true'' else ''false'')\<rparr>
      in if 0 < length (GeneralMessages status)
         then embed\<lparr>Fields := Fields embed @
                [\<lparr>Name = ''Recent Messages'',
                  Value = messagesText 0 (length (GeneralMessages status))
                            (GeneralMessages status) [],
                  Inline = False\<rparr>]\<rparr>
         else embed)"

text \<open>
  The part of \<open>RunFunc\<close> after the response is parsed: the assignment of the green default,
  the switch, the embed.
\<close>

definition Command_sfstatus_embed :: "SalesforceStatus \<Rightarrow> MessageEmbed" where
  "Command_sfstatus_embed status =
     embed_of status (status_switch (Status status) severity_default)"

text \<open>
  The spec's wording: colour and emoji computed from the status value directly, with no
  value assigned beforehand.
\<close>

definition severity_of_status :: "string \<Rightarrow> severity" where
  "severity_of_status status =
     (if status = ''OK'' then \<lparr>statusColor = 0x2ECC71, statusEmoji = emoji_check\<rparr>
      else if status \<in> set [''MAJOR_INCIDENT_CORE'', ''MAINTENANCE'']
      then \<lparr>statusColor = 0xE74C3C, statusEmoji = emoji_red\<rparr>
      else if status \<in> set [''MINOR_INCIDENT_CORE'', ''PERFORMANCE_DEGRADATION'']
      then \<lparr>statusColor = 0xF39C12, statusEmoji = emoji_warning\<rparr>
      else \<lparr>statusColor = 0x95A5A6, statusEmoji = emoji_question\<rparr>)"

definition direct_embed :: "SalesforceStatus \<Rightarrow> MessageEmbed" where
  "direct_embed status = embed_of status (severity_of_status (Status status))"

section \<open>Notions used in the statements\<close>

text \<open>
  The outcome of each text channel's scan in a run, in order, as \<open>scanChannels\<close> obtains
  them: each scan starts from the context the one before left.
\<close>

fun channel_results ::
  "fetch \<Rightarrow> time \<Rightarrow> ReputationConfig \<Rightarrow> ChannelState list \<Rightarrow> Context
    \<Rightarrow> (int64 \<times> delta \<times> error option) list option"
where
  "channel_results ChannelMessages since conf [] c = Some []"
| "channel_results ChannelMessages since conf (channel # channels) c =
     (if Type channel \<noteq> ChannelTypeGuildText
      then channel_results ChannelMessages since conf channels c
      else
        (case processChannel ChannelMessages c (chan_ID channel) since conf of
           None \<Rightarrow> None
         | Some (r, c') \<Rightarrow>
             (case channel_results ChannelMessages since conf channels c' of
                None \<Rightarrow> None
              | Some rs \<Rightarrow> Some (r # rs))))"

definition scanned_ok :: "int64 \<times> delta \<times> error option \<Rightarrow> bool" where
  "scanned_ok r = (case r of (processed, changes, err) \<Rightarrow> err = None)"

definition delta_of :: "int64 \<times> delta \<times> error option \<Rightarrow> delta" where
  "delta_of r = (case r of (processed, changes, err) \<Rightarrow> changes)"

definition text_channels :: "ChannelState list \<Rightarrow> ChannelState list" where
  "text_channels channels = filter (\<lambda>channel. Type channel = ChannelTypeGuildText) channels"

definition nonzero :: "delta \<Rightarrow> delta" where
  "nonzero changes = filter (\<lambda>(userID, amount). amount \<noteq> 0) changes"

text \<open>
  The delta a step of the scan hands on, and the messages on which a match can change it:
  those whose timestamp parses and is not before the cutoff and whose author is not a bot.
\<close>

definition changes_of :: "scan \<Rightarrow> delta" where
  "changes_of r = (case r of Return p c \<Rightarrow> c | Next p c \<Rightarrow> c)"

definition eligible :: "time \<Rightarrow> Message \<Rightarrow> bool" where
  "eligible since msg =
     ((case Timestamp msg of None \<Rightarrow> False | Some t \<Rightarrow> \<not> t < since) \<and> \<not> Bot (Author msg))"

text \<open>The calls of \<open>insertUpdateUserRep\<close> in a trace, and the users of those that succeeded.\<close>

fun upserts :: "effect list \<Rightarrow> effect list" where
  "upserts [] = []"
| "upserts (insertUpdateUserRep g u a e # es) = insertUpdateUserRep g u a e # upserts es"
| "upserts (sendErrorMessage c n # es) = upserts es"

fun updated_users :: "effect list \<Rightarrow> int64 list" where
  "updated_users [] = []"
| "updated_users (insertUpdateUserRep g u a None # es) = u # updated_users es"
| "updated_users (e # es) = updated_users es"

text \<open>The reporter's state after \<open>n\<close> ticks that posted \<open>ps\<close>, in closed form.\<close>

definition state_after :: "nat \<Rightarrow> (int64 \<times> int64 \<times> int64) list \<Rightarrow> reporter" where
  "state_after n ps =
     \<lparr>currentIntervalIdx = (if n < 5 then 0 else if n < 10 then 1 else if n < 15 then 2 else 3),
      updatesAtCurrentInterval =
        of_nat (if n < 5 then n else if n < 10 then n - 5 else if n < 15 then n - 10 else n - 15),
      ticker = schedule n,
      posted = ps\<rparr>"

text \<open>
  What holds of the run and the reporter together at every moment: the reporter runs only
  before the run has come back from \<open>wg.Wait()\<close>, the users are 0 until \<open>SetUsers\<close>, and
  every update posted so far reports 0 users.
\<close>

definition quiet :: "system \<Rightarrow> bool" where
  "quiet s \<longleftrightarrow>
     (running s \<longrightarrow> at s = Scanning \<or> at s = Closed)
     \<and> (at s \<noteq> Finished \<longrightarrow> UsersAffected (shared s) = 0)
     \<and> (\<forall>p\<in>set (posted (goroutine s)). snd (snd p) = 0)"

definition example_stats :: reprocessStats where
  "example_stats = \<lparr>MessagesProcessed = 3, RepGiven = 1, UsersAffected = 0\<rparr>"

subsection \<open>Example inputs\<close>

definition example_message :: "int64 \<Rightarrow> int64 \<Rightarrow> string \<Rightarrow> time option \<Rightarrow> Message" where
  "example_message i a c t =
     \<lparr>msg_ID = i, Author = \<lparr>user_ID = a, Bot = False\<rparr>, Content = c, Timestamp = t\<rparr>"

definition example_conf :: ReputationConfig where
  "example_conf = \<lparr>DisableThanksDetection = False\<rparr>"

text \<open>A history of one message in every channel: user 7 grants to user 42.\<close>

definition example_fetch :: fetch where
  "example_fetch channelID limit beforeID =
     (if beforeID = 0 then Inr [example_message 5 7 ''!giverep <@42>'' (Some 20)] else Inr [])"

definition example_guild :: GuildSet where
  "example_guild =
     \<lparr>guild_ID = 1,
      Channels = [\<lparr>chan_ID = 11, Type = ChannelTypeGuildText\<rparr>,
                  \<lparr>chan_ID = 12, Type = ChannelTypeGuildText\<rparr>]\<rparr>"

definition upsert_ok :: upsert where
  "upsert_ok c guildID userID amount = None"

definition upsert_failing :: upsert where
  "upsert_failing c guildID userID amount = Some (external_error ''db'')"

section \<open>Properties of the channel scanner\<close>

lemmas matcher_defs =
  giveRepPattern_def thanksPattern_def match_at_def match_mention_def fold_alts_def
  is_lower_def to_upper_def is_space_def is_digit_def

lemmas parse_defs = MustParseInt_def ParseInt_def decimal_def digit_val_def is_digit_def

lemma lookup_add_at_same: "lookup (add_at u a m) u = lookup m u + a"
  by (induction m) (auto simp: lookup_def)

lemma lookup_add_at_other: "v \<noteq> u \<Longrightarrow> lookup (add_at u a m) v = lookup m v"
  by (induction m) (auto simp: lookup_def)

lemma scanMessage_old:
  "before_cutoff since m \<Longrightarrow> scanMessage since conf m p r = Return p r"
  by (auto simp: before_cutoff_def scanMessage_def split: option.splits)

lemma scanPage_fresh:
  "\<forall>m\<in>set pre. \<not> before_cutoff since m \<Longrightarrow>
   \<exists>c. scanPage since conf pre p r = Next (p + of_nat (length (filter parsed pre))) c"
proof (induction pre arbitrary: p r)
  case Nil
  then show ?case by simp
next
  case (Cons m pre)
  then have nb: "\<not> before_cutoff since m" and rest: "\<forall>m\<in>set pre. \<not> before_cutoff since m"
    by simp_all
  show ?case
  proof (cases "Timestamp m")
    case None
    then have "scanMessage since conf m p r = Next p r" by (simp add: scanMessage_def)
    with None Cons.IH [OF rest, of p r] show ?thesis by (simp add: parsed_def)
  next
    case (Some t)
    with nb have "\<not> t < since" by (simp add: before_cutoff_def)
    with Some have "\<exists>c. scanMessage since conf m p r = Next (p + 1) c"
      by (simp add: scanMessage_def split: option.split)
    then obtain c where "scanMessage since conf m p r = Next (p + 1) c" ..
    with Some Cons.IH [OF rest, of "p + 1" c] show ?thesis
      by (simp add: parsed_def ac_simps)
  qed
qed

lemma scanPage_append_Next:
  "scanPage since conf pre p r = Next p' c \<Longrightarrow>
   scanPage since conf (pre @ ms) p r = scanPage since conf ms p' c"
  by (induction pre arbitrary: p r) (auto split: scan.splits)

text \<open>
  C3. In a scan of a channel, when the page fetched holds a message whose parsed timestamp is
  strictly before the cutoff, the scan returns at the first such message: the count is the
  count so far plus the messages of the page before it whose timestamp parses, the delta is
  the one accumulated from those messages alone, the error is nil, and no further page is
  fetched. The message itself and everything after it in the page play no part in the result.
\<close>

theorem cutoff_stops_scan:
  assumes "\<not> ctx_Done c"
    and "ChannelMessages channelID 100 beforeID = Inr (pre @ old # rest)"
    and "\<forall>m\<in>set pre. \<not> before_cutoff since m"
    and "before_cutoff since old"
  shows "\<exists>changes.
           scanPage since conf pre processed acc
             = Next (processed + of_nat (length (filter parsed pre))) changes
         \<and> processChannel_loop ChannelMessages channelID since conf c processed acc beforeID
             = Some ((processed + of_nat (length (filter parsed pre)), changes, None), ctx_next c)"
proof -
  from scanPage_fresh [OF assms(3)] obtain changes where
    c: "scanPage since conf pre processed acc
          = Next (processed + of_nat (length (filter parsed pre))) changes" by blast
  have "scanPage since conf (pre @ old # rest) processed acc
          = Return (processed + of_nat (length (filter parsed pre))) changes"
    by (simp add: scanPage_append_Next [OF c] scanMessage_old [OF assms(4)])
  with assms(1,2) c show ?thesis
    by (subst processChannel_loop.simps) auto
qed

lemma example_grant:
  "FindStringSubmatch giveRepPattern ''!giverep <@42>'' = Some ''42''"
  by (simp add: matcher_defs)

lemma parse_42: "MustParseInt ''42'' = 42"
  by (simp add: parse_defs)

lemma scan_example_grant:
  "scanMessage 10 example_conf (example_message 5 7 ''!giverep <@42>'' (Some 20)) p r
     = Next (p + 1) (add_at 42 1 r)"
  by (simp add: scanMessage_def example_message_def example_grant grant_def parse_42
        del: FindStringSubmatch.simps)

theorem cutoff_stops_scan_witness:
  "processChannel_loop
     (\<lambda>channelID limit beforeID.
        Inr ([example_message 5 7 ''!giverep <@42>'' (Some 20), example_message 4 7 ''x'' None]
             @ example_message 3 7 ''!giverep <@42>'' (Some 9)
             # [example_message 2 7 ''!giverep <@42>'' (Some 30)]))
     11 10 example_conf None 0 [] 0
   = Some ((1, [(42, 1)], None), None)"
proof -
  let ?pre = "[example_message 5 7 ''!giverep <@42>'' (Some 20), example_message 4 7 ''x'' None]"
  let ?old = "example_message 3 7 ''!giverep <@42>'' (Some 9)"
  let ?rest = "[example_message 2 7 ''!giverep <@42>'' (Some 30)]"
  have h1: "\<not> ctx_Done None" by (simp add: ctx_Done_def)
  have h3: "\<forall>m\<in>set ?pre. \<not> before_cutoff 10 m"
    by (simp add: before_cutoff_def example_message_def)
  have h4: "before_cutoff 10 ?old" by (simp add: before_cutoff_def example_message_def)
  have pre: "scanPage 10 example_conf ?pre 0 [] = Next 1 [(42, 1)]"
    by (simp add: scan_example_grant) (simp add: scanMessage_def example_message_def)
  from cutoff_stops_scan [of None "\<lambda>channelID limit beforeID. Inr (?pre @ ?old # ?rest)"
      11 0 ?pre ?old ?rest 10 example_conf 0 "[]", OF h1 refl h3 h4] pre
  show ?thesis by (auto simp: ctx_next_def parsed_def example_message_def)
qed

lemma grant_ignored:
  "ParseInt d = None \<or> ParseInt d = Some 0 \<or> ParseInt d = Some (user_ID (Author msg))
   \<Longrightarrow> grant msg d acc = acc"
  by (auto simp: grant_def MustParseInt_def)

lemma scanMessage_no_grant:
  assumes "FindStringSubmatch giveRepPattern (Content msg) = Some d
           \<or> (FindStringSubmatch giveRepPattern (Content msg) = None
              \<and> FindStringSubmatch thanksPattern (Content msg) = Some d)"
    and "grant msg d acc = acc"
  shows "scanMessage since conf msg processed acc =
           (case Timestamp msg of
              None \<Rightarrow> Next processed acc
            | Some t \<Rightarrow> if t < since then Return processed acc else Next (processed + 1) acc)"
  using assms by (auto simp: scanMessage_def split: option.splits)

text \<open>
  C5. When the match that the scanner acts on (the explicit grant pattern, or the thanks
  pattern when the grant pattern does not match) captures a mention that does not parse or
  that parses to 0, the delta is left as it is, no entry created and none changed, and the
  scan goes on with the rest of the page as it does after any other message: nothing fails.
\<close>

theorem zero_or_unparseable_mention_ignored:
  assumes "FindStringSubmatch giveRepPattern (Content msg) = Some d
           \<or> (FindStringSubmatch giveRepPattern (Content msg) = None
              \<and> FindStringSubmatch thanksPattern (Content msg) = Some d)"
    and "ParseInt d = None \<or> ParseInt d = Some 0"
  shows "scanPage since conf (msg # msgs) processed acc =
           (case Timestamp msg of
              None \<Rightarrow> scanPage since conf msgs processed acc
            | Some t \<Rightarrow>
                if t < since then Return processed acc
                else scanPage since conf msgs (processed + 1) acc)"
proof -
  from assms(2) have "grant msg d acc = acc" by (auto intro: grant_ignored)
  from scanMessage_no_grant [OF assms(1) this] show ?thesis
    by (simp split: option.splits)
qed

lemma example_unparseable:
  "FindStringSubmatch giveRepPattern ''!giverep <@99999999999999999999>''
     = Some ''99999999999999999999''"
  by (simp add: matcher_defs)

lemma parse_unparseable: "ParseInt ''99999999999999999999'' = None"
  by (simp add: parse_defs)

theorem zero_or_unparseable_mention_ignored_witness:
  "FindStringSubmatch giveRepPattern
     (Content (example_message 5 7 ''!giverep <@99999999999999999999>'' (Some 20)))
     = Some ''99999999999999999999''
   \<and> ParseInt ''99999999999999999999'' = None
   \<and> scanPage 10 example_conf
        [example_message 5 7 ''!giverep <@99999999999999999999>'' (Some 20)] 0 [(42, 1)]
       = Next 1 [(42, 1)]"
proof -
  have m: "FindStringSubmatch giveRepPattern
     (Content (example_message 5 7 ''!giverep <@99999999999999999999>'' (Some 20)))
     = Some ''99999999999999999999''"
    by (simp add: example_message_def example_unparseable del: FindStringSubmatch.simps)
  from zero_or_unparseable_mention_ignored [OF disjI1 [OF m] disjI1 [OF parse_unparseable],
      of 10 example_conf "[]" 0 "[(42, 1)]"] m parse_unparseable
  show ?thesis by (simp add: example_message_def del: FindStringSubmatch.simps)
qed

text \<open>
  C6. When the mention captured by the match the scanner acts on, of either pattern, is the
  author's own identifier, the delta is left as it is and the scan goes on.
\<close>

theorem self_grant_changes_nothing:
  assumes "FindStringSubmatch giveRepPattern (Content msg) = Some d
           \<or> (FindStringSubmatch giveRepPattern (Content msg) = None
              \<and> FindStringSubmatch thanksPattern (Content msg) = Some d)"
    and "ParseInt d = Some (user_ID (Author msg))"
  shows "scanPage since conf (msg # msgs) processed acc =
           (case Timestamp msg of
              None \<Rightarrow> scanPage since conf msgs processed acc
            | Some t \<Rightarrow>
                if t < since then Return processed acc
                else scanPage since conf msgs (processed + 1) acc)"
proof -
  from assms(2) have "grant msg d acc = acc" by (auto intro: grant_ignored)
  from scanMessage_no_grant [OF assms(1) this] show ?thesis
    by (simp split: option.splits)
qed

lemma example_thanks_self:
  "FindStringSubmatch giveRepPattern ''Thanks <@!7>'' = None"
  "FindStringSubmatch thanksPattern ''Thanks <@!7>'' = Some ''7''"
  by (simp_all add: matcher_defs)

lemma parse_7: "ParseInt ''7'' = Some 7"
  by (simp add: parse_defs)

theorem self_grant_changes_nothing_witness:
  "FindStringSubmatch giveRepPattern (Content (example_message 5 7 ''Thanks <@!7>'' (Some 20))) = None
   \<and> FindStringSubmatch thanksPattern (Content (example_message 5 7 ''Thanks <@!7>'' (Some 20)))
       = Some ''7''
   \<and> ParseInt ''7'' = Some (user_ID (Author (example_message 5 7 ''Thanks <@!7>'' (Some 20))))
   \<and> scanPage 10 example_conf [example_message 5 7 ''Thanks <@!7>'' (Some 20)] 0 [(7, 3)]
       = Next 1 [(7, 3)]"
proof -
  let ?m = "example_message 5 7 ''Thanks <@!7>'' (Some 20)"
  have m: "FindStringSubmatch giveRepPattern (Content ?m) = None
           \<and> FindStringSubmatch thanksPattern (Content ?m) = Some ''7''"
    by (simp add: example_message_def example_thanks_self del: FindStringSubmatch.simps)
  have p: "ParseInt ''7'' = Some (user_ID (Author ?m))"
    by (simp add: example_message_def parse_7)
  from self_grant_changes_nothing [OF disjI2 [OF m] p, of 10 example_conf "[]" 0 "[(7, 3)]"] m p
  show ?thesis by (simp add: example_message_def del: FindStringSubmatch.simps)
qed

text \<open>
  C9 as amended. For every message whose content matches the explicit grant pattern, whether
  or not it matches the thanks pattern as well and whatever the configuration, the thanks
  pattern is not looked at: the step's result is the one obtained with thanks detection
  disabled. No delta goes up by 2: the user captured by the grant pattern gains exactly 1
  when the message is one a match can act on (timestamp parsed and not before the cutoff,
  author not a bot) and that user is a valid recipient (not 0, not the author); in every
  other case, and for every other user, the delta stays as it was.
\<close>

theorem explicit_grant_skips_thanks:
  assumes "FindStringSubmatch giveRepPattern (Content msg) = Some d"
  shows "scanMessage since conf msg processed acc
           = scanMessage since (conf\<lparr>DisableThanksDetection := True\<rparr>) msg processed acc
       \<and> lookup (changes_of (scanMessage since conf msg processed acc)) u
           = lookup acc u
             + (if eligible since msg \<and> u = MustParseInt d \<and> u \<noteq> 0 \<and> u \<noteq> user_ID (Author msg)
                then 1 else 0)"
proof -
  have skip: "scanMessage since conf msg processed acc
           = scanMessage since (conf\<lparr>DisableThanksDetection := True\<rparr>) msg processed acc"
    using assms by (simp add: scanMessage_def split: option.splits)
  have delta: "lookup (changes_of (scanMessage since conf msg processed acc)) u
           = lookup acc u
             + (if eligible since msg \<and> u = MustParseInt d \<and> u \<noteq> 0 \<and> u \<noteq> user_ID (Author msg)
                then 1 else 0)"
  proof (cases "Timestamp msg")
    case None
    then show ?thesis by (simp add: scanMessage_def changes_of_def eligible_def)
  next
    case (Some t)
    show ?thesis
    proof (cases "t < since \<or> Bot (Author msg)")
      case True
      with Some show ?thesis
        by (auto simp: scanMessage_def changes_of_def eligible_def)
    next
      case False
      with Some assms have r: "scanMessage since conf msg processed acc
                               = Next (processed + 1) (grant msg d acc)"
        and e: "eligible since msg"
        by (simp_all add: scanMessage_def eligible_def)
      show ?thesis
      proof (cases "MustParseInt d \<noteq> 0 \<and> MustParseInt d \<noteq> user_ID (Author msg)")
        case True
        then have "grant msg d acc = add_at (MustParseInt d) 1 acc" by (simp add: grant_def)
        with True e show ?thesis
          by (cases "u = MustParseInt d")
            (simp_all add: r changes_of_def lookup_add_at_same lookup_add_at_other)
      next
        case False
        then have "grant msg d acc = acc" by (auto simp: grant_def)
        with False show ?thesis by (auto simp: r changes_of_def)
      qed
    qed
  qed
  from skip delta show ?thesis ..
qed

lemma example_both:
  "FindStringSubmatch giveRepPattern ''!giverep <@42> thanks <@42>'' = Some ''42''"
  "FindStringSubmatch thanksPattern ''!giverep <@42> thanks <@42>'' = Some ''42''"
  by (simp_all add: matcher_defs)

lemma lookup_single: "lookup [(k, v)] k = v"
  by (simp add: lookup_def)

theorem explicit_grant_skips_thanks_witness:
  "FindStringSubmatch giveRepPattern
     (Content (example_message 5 7 ''!giverep <@42> thanks <@42>'' (Some 20))) = Some ''42''
   \<and> FindStringSubmatch thanksPattern
     (Content (example_message 5 7 ''!giverep <@42> thanks <@42>'' (Some 20))) = Some ''42''
   \<and> scanMessage 10 example_conf (example_message 5 7 ''!giverep <@42> thanks <@42>'' (Some 20))
        0 [(42, 1)] = Next 1 [(42, 2)]
   \<and> lookup (changes_of (scanMessage 10 example_conf
        (example_message 5 7 ''!giverep <@42> thanks <@42>'' (Some 20)) 0 [(42, 1)])) 42 = 1 + 1"
proof -
  let ?m = "example_message 5 7 ''!giverep <@42> thanks <@42>'' (Some 20)"
  have g: "FindStringSubmatch giveRepPattern (Content ?m) = Some ''42''"
    and t: "FindStringSubmatch thanksPattern (Content ?m) = Some ''42''"
    by (simp_all add: example_message_def example_both del: FindStringSubmatch.simps)
  have ts: "Timestamp ?m = Some 20" and nb: "\<not> Bot (Author ?m)"
    by (simp_all add: example_message_def)
  have e: "eligible 10 ?m" by (simp add: eligible_def example_message_def)
  have a: "user_ID (Author ?m) = 7" by (simp add: example_message_def)
  note inst = explicit_grant_skips_thanks [OF g, of 10 example_conf 0 "[(42, 1)]" 42]
  from inst have skip: "scanMessage 10 example_conf ?m 0 [(42, 1)]
      = scanMessage 10 (example_conf\<lparr>DisableThanksDetection := True\<rparr>) ?m 0 [(42, 1)]"
    by (rule conjunct1)
  from inst [THEN conjunct2] e a have one: "lookup (changes_of (scanMessage 10 example_conf ?m 0 [(42, 1)])) 42
      = 1 + 1"
    by (simp add: parse_42 lookup_single)
  have "scanMessage 10 (example_conf\<lparr>DisableThanksDetection := True\<rparr>) ?m 0 [(42, 1)]
       = Next 1 [(42, 2)]"
    using g by (simp add: scanMessage_def grant_def parse_42 ts nb a)
  with skip have "scanMessage 10 example_conf ?m 0 [(42, 1)] = Next 1 [(42, 2)]" by simp
  with g t one show ?thesis by simp
qed

text \<open>
  C9 as stated fails: a message of user 7 that matches both patterns, the grant naming
  user 7 and the thanks naming user 42, is counted and leaves every delta as it was; nobody
  gains 1.
\<close>

lemma example_self_grant_with_thanks:
  "FindStringSubmatch giveRepPattern ''!giverep <@7> thanks <@42>'' = Some ''7''"
  "FindStringSubmatch thanksPattern ''!giverep <@7> thanks <@42>'' = Some ''42''"
  by (simp_all add: matcher_defs)

theorem self_grant_with_thanks_gives_nothing:
  "FindStringSubmatch giveRepPattern ''!giverep <@7> thanks <@42>'' = Some ''7''
   \<and> FindStringSubmatch thanksPattern ''!giverep <@7> thanks <@42>'' = Some ''42''
   \<and> \<not> DisableThanksDetection example_conf
   \<and> scanMessage 10 example_conf
        (example_message 5 7 ''!giverep <@7> thanks <@42>'' (Some 20)) 0 [] = Next 1 []"
proof -
  have "MustParseInt ''7'' = 7" by (simp add: MustParseInt_def parse_7)
  then show ?thesis
    by (simp add: example_self_grant_with_thanks scanMessage_def example_message_def grant_def
        example_conf_def del: FindStringSubmatch.simps)
qed

section \<open>Properties of the orchestrator\<close>

lemma keys_add_at:
  "map fst (add_at u a m) = (if u \<in> fst ` set m then map fst m else map fst m @ [u])"
  by (induction m) (force simp: image_iff)+

lemma distinct_add_at: "distinct (map fst m) \<Longrightarrow> distinct (map fst (add_at u a m))"
  by (simp add: keys_add_at)

lemma distinct_grant: "distinct (map fst m) \<Longrightarrow> distinct (map fst (grant msg d m))"
  by (simp add: grant_def Let_def distinct_add_at)

lemma distinct_scanMessage:
  "distinct (map fst m) \<Longrightarrow>
   (scanMessage since conf msg p m = Return p' m' \<or> scanMessage since conf msg p m = Next p' m')
   \<Longrightarrow> distinct (map fst m')"
  by (auto simp: scanMessage_def distinct_grant split: option.splits if_splits)

lemma distinct_scanPage:
  "distinct (map fst m) \<Longrightarrow>
   (scanPage since conf msgs p m = Return p' m' \<or> scanPage since conf msgs p m = Next p' m')
   \<Longrightarrow> distinct (map fst m')"
proof (induction msgs arbitrary: p m)
  case Nil
  then show ?case by auto
next
  case (Cons msg msgs)
  show ?case
  proof (cases "scanMessage since conf msg p m")
    case (Return q c)
    with Cons.prems distinct_scanMessage [of m since conf msg p q c] show ?thesis by auto
  next
    case (Next q c)
    with Cons.prems(1) distinct_scanMessage [of m since conf msg p q c]
    have "distinct (map fst c)" by simp
    from Cons.IH [OF this, of q] Cons.prems(2) Next show ?thesis by simp
  qed
qed

lemmas processChannel_loop_induct =
  processChannel_loop.raw_induct [rotated, consumes 1, case_names step]

lemma distinct_processChannel_loop_aux:
  assumes "processChannel_loop F cid snc cf cx pr mm bf = Some yy"
  shows "distinct (map fst mm) \<longrightarrow> distinct (map fst (fst (snd (fst yy))))"
  using assms
proof (induction F cid snc cf cx pr mm bf yy rule: processChannel_loop_induct)
  case (step loop ChannelMessages channelID since conf c p m b y)
  note body = step.hyps
  show ?case
  proof
    assume dm: "distinct (map fst m)"
    show "distinct (map fst (fst (snd (fst y))))"
    proof (cases "ctx_Done c")
      case True
      with dm body show ?thesis by auto
    next
      case False
      show ?thesis
      proof (cases "ChannelMessages channelID 100 b")
        case (Inl e)
        with False dm body show ?thesis by (auto split: if_splits)
      next
        case (Inr msgs)
        show ?thesis
        proof (cases "msgs = []")
          case True
          with Inr False dm body show ?thesis by (auto split: if_splits)
        next
          case ne: False
          show ?thesis
          proof (cases "scanPage since conf msgs p m")
            case (Return q d)
            with distinct_scanPage [OF dm, of since conf msgs p q d]
            have "distinct (map fst d)" by simp
            with Return ne Inr False body show ?thesis by (auto split: if_splits)
          next
            case (Next q d)
            with distinct_scanPage [OF dm, of since conf msgs p q d]
            have dd: "distinct (map fst d)" by simp
            from Next ne Inr False body
            have "loop ChannelMessages channelID since conf (ctx_next c) q d (msg_ID (last msgs))
                    = Some y"
              by (auto split: if_splits)
            from step.IH [OF this] dd show ?thesis by simp
          qed
        qed
      qed
    qed
  qed
qed

lemma distinct_processChannel:
  "processChannel ChannelMessages c channelID since conf = Some ((p, d, e), c') \<Longrightarrow>
   distinct (map fst d)"
  using distinct_processChannel_loop_aux [of ChannelMessages channelID since conf c 0 "[]" 0
      "((p, d, e), c')"]
  by (simp add: processChannel_def)

lemma lookup_absent: "u \<notin> fst ` set m \<Longrightarrow> lookup m u = 0"
  by (simp add: lookup_def map_of_eq_None_iff [THEN iffD2])

lemma lookup_Cons: "lookup ((k, v) # m) u = (if u = k then v else lookup m u)"
  by (simp add: lookup_def)

lemma lookup_aggregate:
  "distinct (map fst changes) \<Longrightarrow>
   lookup (aggregate acc changes) u = lookup acc u + lookup changes u"
proof (induction changes arbitrary: acc)
  case Nil
  then show ?case by (simp add: aggregate_def lookup_def)
next
  case (Cons kv changes)
  obtain k v where kv: "kv = (k, v)" by (cases kv)
  from Cons.prems have notin: "k \<notin> fst ` set changes" and d: "distinct (map fst changes)"
    by (simp_all add: kv)
  have step: "aggregate acc ((k, v) # changes) = aggregate (add_at k v acc) changes"
    by (simp add: aggregate_def)
  have ih: "lookup (aggregate (add_at k v acc) changes) u
              = lookup (add_at k v acc) u + lookup changes u"
    by (rule Cons.IH [OF d])
  show ?case unfolding kv step ih
  proof (cases "u = k")
    case True
    with notin have "lookup changes k = 0" by (simp add: lookup_absent)
    with True show "lookup (add_at k v acc) u + lookup changes u
        = lookup acc u + lookup ((k, v) # changes) u"
      by (simp add: lookup_add_at_same lookup_Cons)
  next
    case False
    then show "lookup (add_at k v acc) u + lookup changes u
        = lookup acc u + lookup ((k, v) # changes) u"
      by (simp add: lookup_add_at_other lookup_Cons)
  qed
qed

lemma distinct_aggregate:
  "distinct (map fst acc) \<Longrightarrow> distinct (map fst (aggregate acc changes))"
proof (induction changes arbitrary: acc)
  case Nil
  then show ?case by (simp add: aggregate_def)
next
  case (Cons kv changes)
  obtain k v where kv: "kv = (k, v)" by (cases kv)
  have "aggregate acc (kv # changes) = aggregate (add_at k v acc) changes"
    by (simp add: aggregate_def kv)
  with Cons.IH [OF distinct_add_at [OF Cons.prems]] show ?case by simp
qed

lemma upserts_append: "upserts (xs @ ys) = upserts xs @ upserts ys"
  by (induction xs rule: upserts.induct) simp_all

text \<open>What the loop over the channels leaves alone.\<close>

lemma scanChannels_frame:
  "scanChannels ChannelMessages dest since conf channels s = Some s' \<Longrightarrow>
   uniqueUsers s' = uniqueUsers s \<and> userErrors s' = userErrors s
   \<and> upserts (trace s') = upserts (trace s)
   \<and> (distinct (map fst (repChanges s)) \<longrightarrow> distinct (map fst (repChanges s')))"
proof (induction channels arbitrary: s)
  case Nil
  then show ?case by simp
next
  case (Cons channel channels)
  show ?case
  proof (cases "Type channel \<noteq> ChannelTypeGuildText")
    case True
    with Cons.prems Cons.IH [of s] show ?thesis by simp
  next
    case False
    then have tc: "Type channel = ChannelTypeGuildText" by simp
    show ?thesis
    proof (cases "processChannel ChannelMessages (ctx s) (chan_ID channel) since conf")
      case None
      with Cons.prems tc show ?thesis by simp
    next
      case (Some r)
      obtain p d e c' where r: "r = ((p, d, e), c')" by (cases r) auto
      show ?thesis
      proof (cases e)
        case None
        let ?s1 = "s\<lparr>ctx := c', stats := Add (stats s) p (repCount d),
                     repChanges := aggregate (repChanges s) d\<rparr>"
        from Cons.prems tc Some r None
        have "scanChannels ChannelMessages dest since conf channels ?s1 = Some s'" by simp
        from Cons.IH [OF this] show ?thesis by (simp add: distinct_aggregate)
      next
        case (Some err)
        let ?s1 = "s\<lparr>ctx := c', channelErrors := channelErrors s + 1,
                     trace := trace s @ [sendErrorMessage dest (ChannelFailed (chan_ID channel) err)]\<rparr>"
        from Cons.prems tc \<open>processChannel ChannelMessages (ctx s) (chan_ID channel) since conf = Some r\<close>
          r Some
        have "scanChannels ChannelMessages dest since conf channels ?s1 = Some s'" by simp
        from Cons.IH [OF this] show ?thesis by (simp add: upserts_append)
      qed
    qed
  qed
qed

lemma scanChannels_sum:
  "scanChannels ChannelMessages dest since conf channels s = Some s' \<Longrightarrow>
   \<exists>rs. channel_results ChannelMessages since conf channels (ctx s) = Some rs
      \<and> (\<forall>u. lookup (repChanges s') u
               = lookup (repChanges s) u
                 + sum_list (map (\<lambda>r. lookup (delta_of r) u) (filter scanned_ok rs)))"
proof (induction channels arbitrary: s)
  case Nil
  then show ?case by simp
next
  case (Cons channel channels)
  show ?case
  proof (cases "Type channel \<noteq> ChannelTypeGuildText")
    case True
    with Cons.prems Cons.IH [of s] show ?thesis by simp
  next
    case False
    then have tc: "Type channel = ChannelTypeGuildText" by simp
    show ?thesis
    proof (cases "processChannel ChannelMessages (ctx s) (chan_ID channel) since conf")
      case None
      with Cons.prems tc show ?thesis by simp
    next
      case (Some r)
      obtain p d e c' where r: "r = ((p, d, e), c')" by (cases r) auto
      note pc = Some [unfolded r]
      show ?thesis
      proof (cases e)
        case None
        let ?s1 = "s\<lparr>ctx := c', stats := Add (stats s) p (repCount d),
                     repChanges := aggregate (repChanges s) d\<rparr>"
        from Cons.prems tc pc None
        have "scanChannels ChannelMessages dest since conf channels ?s1 = Some s'" by simp
        from Cons.IH [OF this] obtain rs where
          rs: "channel_results ChannelMessages since conf channels c' = Some rs"
          and sum: "\<And>u. lookup (repChanges s') u
               = lookup (aggregate (repChanges s) d) u
                 + sum_list (map (\<lambda>r. lookup (delta_of r) u) (filter scanned_ok rs))"
          by auto
        from pc None have dd: "distinct (map fst d)" by (simp add: distinct_processChannel)
        have "channel_results ChannelMessages since conf (channel # channels) (ctx s)
                = Some ((p, d, e) # rs)"
          using tc pc rs by simp
        moreover have "\<forall>u. lookup (repChanges s') u
               = lookup (repChanges s) u
                 + sum_list (map (\<lambda>r. lookup (delta_of r) u) (filter scanned_ok ((p, d, e) # rs)))"
          using None by (simp add: sum lookup_aggregate [OF dd] scanned_ok_def delta_of_def ac_simps)
        ultimately show ?thesis by blast
      next
        case (Some err)
        let ?s1 = "s\<lparr>ctx := c', channelErrors := channelErrors s + 1,
                     trace := trace s @ [sendErrorMessage dest (ChannelFailed (chan_ID channel) err)]\<rparr>"
        from Cons.prems tc pc Some
        have "scanChannels ChannelMessages dest since conf channels ?s1 = Some s'" by simp
        from Cons.IH [OF this] obtain rs where
          rs: "channel_results ChannelMessages since conf channels c' = Some rs"
          and sum: "\<And>u. lookup (repChanges s') u
               = lookup (repChanges s) u
                 + sum_list (map (\<lambda>r. lookup (delta_of r) u) (filter scanned_ok rs))"
          by auto
        have "channel_results ChannelMessages since conf (channel # channels) (ctx s)
                = Some ((p, d, e) # rs)"
          using tc pc rs by simp
        moreover have "\<forall>u. lookup (repChanges s') u
               = lookup (repChanges s) u
                 + sum_list (map (\<lambda>r. lookup (delta_of r) u) (filter scanned_ok ((p, d, e) # rs)))"
          using Some by (simp add: sum scanned_ok_def)
        ultimately show ?thesis by blast
      qed
    qed
  qed
qed

text \<open>What the loop over the users does.\<close>

lemma applyChanges_effect:
  "ctx (applyChanges ups g dest m s) = ctx s
   \<and> stats (applyChanges ups g dest m s) = stats s
   \<and> repChanges (applyChanges ups g dest m s) = repChanges s
   \<and> channelErrors (applyChanges ups g dest m s) = channelErrors s
   \<and> uniqueUsers (applyChanges ups g dest m s) = uniqueUsers s + of_nat (length (nonzero m))
   \<and> userErrors (applyChanges ups g dest m s)
       = userErrors s
         + of_nat (length (filter (\<lambda>(u, a). ups (ctx s) g u a \<noteq> None) (nonzero m)))
   \<and> upserts (trace (applyChanges ups g dest m s))
       = upserts (trace s)
         @ map (\<lambda>(u, a). insertUpdateUserRep g u a (ups (ctx s) g u a)) (nonzero m)"
proof (induction ups g dest m s rule: applyChanges.induct)
  case (1 ups g dest s)
  show ?case by (simp add: nonzero_def)
next
  case (2 ups g dest u a rest s)
  show ?case
  proof (cases "a = 0")
    case True
    with 2(1) show ?thesis by (simp add: nonzero_def)
  next
    case nz: False
    show ?thesis
    proof (cases "ups (ctx s) g u a")
      case None
      with nz 2 show ?thesis by (simp add: nonzero_def upserts_append ac_simps)
    next
      case (Some e)
      with nz 2 show ?thesis by (simp add: nonzero_def upserts_append ac_simps)
    qed
  qed
qed

lemma example_message_sel:
  "msg_ID (example_message i a c t) = i"
  "Timestamp (example_message i a c t) = t"
  by (simp_all add: example_message_def)

lemma example_scan_ok:
  "processChannel example_fetch None cid 10 example_conf = Some ((1, [(42, 1)], None), None)"
  unfolding processChannel_def
  apply (subst processChannel_loop.simps)
  apply (simp add: ctx_Done_def ctx_next_def example_fetch_def scan_example_grant
      example_message_sel)
  apply (subst processChannel_loop.simps)
  apply (simp add: ctx_Done_def ctx_next_def example_fetch_def)
  done

lemma example_scan_cancelled_midway:
  "processChannel example_fetch (Some (Suc 0)) cid 10 example_conf
     = Some ((1, [(42, 1)], Some context_Canceled), Some 0)"
  unfolding processChannel_def
  apply (subst processChannel_loop.simps)
  apply (simp add: ctx_Done_def ctx_next_def example_fetch_def scan_example_grant
      example_message_sel)
  apply (subst processChannel_loop.simps)
  apply (simp add: ctx_Done_def ctx_Err_def)
  done

lemma cancelled_loop:
  "ctx_Done c \<Longrightarrow>
   processChannel_loop ChannelMessages channelID since conf c p m b
     = Some ((p, m, Some context_Canceled), c)"
  by (subst processChannel_loop.simps) (simp add: ctx_Err_def)

lemma scanChannels_cancelled:
  "ctx_Done (ctx s) \<Longrightarrow>
   scanChannels ChannelMessages dest since conf channels s
     = Some (s\<lparr>channelErrors := channelErrors s + of_nat (length (text_channels channels)),
               trace := trace s @
                 map (\<lambda>channel. sendErrorMessage dest (ChannelFailed (chan_ID channel) context_Canceled))
                   (text_channels channels)\<rparr>)"
proof (induction channels arbitrary: s)
  case Nil
  then show ?case by (simp add: text_channels_def)
next
  case (Cons channel channels)
  show ?case
  proof (cases "Type channel \<noteq> ChannelTypeGuildText")
    case True
    with Cons.IH [OF Cons.prems] show ?thesis by (simp add: text_channels_def)
  next
    case False
    let ?s1 = "s\<lparr>ctx := ctx s, channelErrors := channelErrors s + 1,
                 trace := trace s @
                   [sendErrorMessage dest (ChannelFailed (chan_ID channel) context_Canceled)]\<rparr>"
    from Cons.prems have d: "ctx_Done (ctx ?s1)" by simp
    from False Cons.prems
    have "scanChannels ChannelMessages dest since conf (channel # channels) s
            = scanChannels ChannelMessages dest since conf channels ?s1"
      by (simp add: processChannel_def cancelled_loop)
    with Cons.IH [OF d] False show ?thesis by (simp add: text_channels_def ac_simps)
  qed
qed

lemma reprocessMessages_nil:
  "reprocessMessages ChannelMessages ups since c gs conf dest = Some (res, s) \<Longrightarrow> snd res = None"
  by (auto simp: reprocessMessages_def Let_def split: option.splits)

lemma scanChannels_error:
  "Type channel = ChannelTypeGuildText \<Longrightarrow>
   processChannel ChannelMessages (ctx s) (chan_ID channel) since conf = Some ((p, d, Some e), c')
   \<Longrightarrow> scanChannels ChannelMessages dest since conf (channel # channels) s
       = scanChannels ChannelMessages dest since conf channels
           (s\<lparr>ctx := c', channelErrors := channelErrors s + 1,
              trace := trace s @ [sendErrorMessage dest (ChannelFailed (chan_ID channel) e)]\<rparr>)"
  by simp

text \<open>
  C1 as amended. Once the caller's cancellation signal is set, a channel's scan stops at its
  next check, before the next page is fetched, and returns what it has counted so far with
  the cancellation as its error. The loop over the channels handles that error as it handles
  any other: it counts a channel error, reports it to the destination channel, drops what
  that scan returned, and goes on; every text channel that remains is visited, and each
  fails the same way. The run itself returns its stats with a nil error whenever it returns.
\<close>

theorem cancellation_is_a_channel_error:
  assumes "ctx_Done (ctx s)"
  shows "processChannel_loop ChannelMessages channelID since conf (ctx s) processed acc beforeID
           = Some ((processed, acc, Some context_Canceled), ctx s)
       \<and> (\<forall>(s0 :: run) (channel :: ChannelState) p d c'.
             Type channel = ChannelTypeGuildText
             \<and> processChannel ChannelMessages (ctx s0) (chan_ID channel) since conf
                 = Some ((p, d, Some context_Canceled), c')
             \<longrightarrow> scanChannels ChannelMessages dest since conf (channel # channels) s0
                 = scanChannels ChannelMessages dest since conf channels
                     (s0\<lparr>ctx := c', channelErrors := channelErrors s0 + 1,
                         trace := trace s0 @
                           [sendErrorMessage dest
                              (ChannelFailed (chan_ID channel) context_Canceled)]\<rparr>))
       \<and> scanChannels ChannelMessages dest since conf channels s
           = Some (s\<lparr>channelErrors := channelErrors s + of_nat (length (text_channels channels)),
                     trace := trace s @
                       map (\<lambda>channel. sendErrorMessage dest
                                        (ChannelFailed (chan_ID channel) context_Canceled))
                         (text_channels channels)\<rparr>)
       \<and> (\<forall>c gs ups res s'.
             reprocessMessages ChannelMessages ups since c gs conf dest = Some (res, s')
             \<longrightarrow> snd res = None)"
proof (intro conjI allI impI)
  show "processChannel_loop ChannelMessages channelID since conf (ctx s) processed acc beforeID
           = Some ((processed, acc, Some context_Canceled), ctx s)"
    by (rule cancelled_loop [OF assms])
next
  fix s0 :: run and channel :: ChannelState and p d c'
  assume "Type channel = ChannelTypeGuildText
             \<and> processChannel ChannelMessages (ctx s0) (chan_ID channel) since conf
                 = Some ((p, d, Some context_Canceled), c')"
  then show "scanChannels ChannelMessages dest since conf (channel # channels) s0
                 = scanChannels ChannelMessages dest since conf channels
                     (s0\<lparr>ctx := c', channelErrors := channelErrors s0 + 1,
                         trace := trace s0 @
                           [sendErrorMessage dest
                              (ChannelFailed (chan_ID channel) context_Canceled)]\<rparr>)"
    by (simp add: scanChannels_error)
next
  show "scanChannels ChannelMessages dest since conf channels s
           = Some (s\<lparr>channelErrors := channelErrors s + of_nat (length (text_channels channels)),
                     trace := trace s @
                       map (\<lambda>channel. sendErrorMessage dest
                                        (ChannelFailed (chan_ID channel) context_Canceled))
                         (text_channels channels)\<rparr>)"
    by (rule scanChannels_cancelled [OF assms])
next
  fix c gs ups res s'
  assume "reprocessMessages ChannelMessages ups since c gs conf dest = Some (res, s')"
  then show "snd res = None" by (rule reprocessMessages_nil)
qed

lemma example_guild_sel:
  "Channels example_guild
     = [\<lparr>chan_ID = 11, Type = ChannelTypeGuildText\<rparr>, \<lparr>chan_ID = 12, Type = ChannelTypeGuildText\<rparr>]"
  "guild_ID example_guild = 1"
  by (simp_all add: example_guild_def)

lemma word_sless_numerals:
  "word_sless (0 :: int64) 1" "word_sless (0 :: int64) 2" "\<not> word_sless (0 :: int64) 0"
  by (simp_all add: word_sless_alt)

lemma example_run_cancelled:
  "reprocessMessages example_fetch upsert_ok 10 (Some 1) example_guild example_conf 99
     = Some ((\<lparr>MessagesProcessed = 0, RepGiven = 0, UsersAffected = 0\<rparr>, None),
             \<lparr>ctx = Some 0,
              stats = \<lparr>MessagesProcessed = 0, RepGiven = 0, UsersAffected = 0\<rparr>,
              repChanges = [], channelErrors = 2, uniqueUsers = 0, userErrors = 0,
              trace = [sendErrorMessage 99 (ChannelFailed 11 context_Canceled),
                       sendErrorMessage 99 (ChannelFailed 12 context_Canceled),
                       sendErrorMessage 99 (Summary 2 0)]\<rparr>)"
proof -
  have later: "processChannel example_fetch (Some 0) 12 10 example_conf
                 = Some ((0, [], Some context_Canceled), Some 0)"
    by (simp add: processChannel_def cancelled_loop ctx_Done_def)
  show ?thesis
    by (simp add: reprocessMessages_def example_guild_sel start_def
        example_scan_cancelled_midway later SetUsers_def summarize_def word_sless_numerals)
qed

theorem cancellation_is_a_channel_error_witness:
  "ctx_Done (ctx (start (Some 0)))
   \<and> processChannel_loop example_fetch 11 10 example_conf (ctx (start (Some 0))) 1 [(42, 1)] 5
       = Some ((1, [(42, 1)], Some context_Canceled), Some 0)
   \<and> scanChannels example_fetch 99 10 example_conf (Channels example_guild) (start (Some 0))
       = Some ((start (Some 0))
            \<lparr>channelErrors := 2,
              trace := [sendErrorMessage 99 (ChannelFailed 11 context_Canceled),
                        sendErrorMessage 99 (ChannelFailed 12 context_Canceled)]\<rparr>)
   \<and> snd (fst (the (reprocessMessages example_fetch upsert_ok 10 (Some 1) example_guild
                       example_conf 99))) = None"
proof -
  have h: "ctx_Done (ctx (start (Some 0)))" by (simp add: start_def ctx_Done_def)
  note inst = cancellation_is_a_channel_error [OF h, of example_fetch 11 10 example_conf 1
      "[(42, 1)]" 5 99 "Channels example_guild"]
  from inst have loop:
    "processChannel_loop example_fetch 11 10 example_conf (ctx (start (Some 0))) 1 [(42, 1)] 5
       = Some ((1, [(42, 1)], Some context_Canceled), ctx (start (Some 0)))"
    by blast
  from inst have chans:
    "scanChannels example_fetch 99 10 example_conf (Channels example_guild) (start (Some 0))
     = Some ((start (Some 0))
          \<lparr>channelErrors := channelErrors (start (Some 0))
              + of_nat (length (text_channels (Channels example_guild))),
            trace := trace (start (Some 0)) @
              map (\<lambda>channel. sendErrorMessage 99 (ChannelFailed (chan_ID channel) context_Canceled))
                (text_channels (Channels example_guild))\<rparr>)"
    by blast
  from inst example_run_cancelled have nil:
    "snd (fst (the (reprocessMessages example_fetch upsert_ok 10 (Some 1) example_guild
                       example_conf 99))) = None"
    by simp
  have "text_channels (Channels example_guild) = Channels example_guild"
    by (simp add: text_channels_def example_guild_sel)
  with h loop chans nil show ?thesis by (simp add: example_guild_sel start_def)
qed

text \<open>
  C1 as stated fails: with the signal set during the scan of the first of two channels, the
  run visits the second channel as well, reports both as channel errors, and returns a nil
  error.
\<close>

theorem cancelled_run_goes_on_and_returns_nil:
  "reprocessMessages example_fetch upsert_ok 10 (Some 1) example_guild example_conf 99
     = Some ((\<lparr>MessagesProcessed = 0, RepGiven = 0, UsersAffected = 0\<rparr>, None),
             \<lparr>ctx = Some 0,
              stats = \<lparr>MessagesProcessed = 0, RepGiven = 0, UsersAffected = 0\<rparr>,
              repChanges = [], channelErrors = 2, uniqueUsers = 0, userErrors = 0,
              trace = [sendErrorMessage 99 (ChannelFailed 11 context_Canceled),
                       sendErrorMessage 99 (ChannelFailed 12 context_Canceled),
                       sendErrorMessage 99 (Summary 2 0)]\<rparr>)"
  by (rule example_run_cancelled)

lemma summarize_frame:
  "stats (summarize dest s) = stats s" "repChanges (summarize dest s) = repChanges s"
  "ctx (summarize dest s) = ctx s" "userErrors (summarize dest s) = userErrors s"
  "uniqueUsers (summarize dest s) = uniqueUsers s"
  "upserts (trace (summarize dest s)) = upserts (trace s)"
  by (simp_all add: summarize_def upserts_append)

lemma start_sel:
  "ctx (start c) = c" "repChanges (start c) = []" "uniqueUsers (start c) = 0"
  "userErrors (start c) = 0" "trace (start c) = []"
  by (simp_all add: start_def)

lemma reprocessMessages_Some:
  assumes "reprocessMessages ChannelMessages ups since c gs conf dest = Some (res, s)"
  obtains s1 where
    "scanChannels ChannelMessages dest since conf (Channels gs) (start c) = Some s1"
    "s = summarize dest
           ((applyChanges ups (guild_ID gs) dest (repChanges s1) s1)
              \<lparr>stats := SetUsers (stats (applyChanges ups (guild_ID gs) dest (repChanges s1) s1))
                          (uniqueUsers (applyChanges ups (guild_ID gs) dest (repChanges s1) s1))\<rparr>)"
    "res = (stats s, None)"
  using assms by (auto simp: reprocessMessages_def Let_def split: option.splits)

text \<open>
  C4. In a run that returns, the aggregated delta of every user is the sum, over the text
  channels whose scan returned without error, of that user's delta in the channel.
\<close>

theorem aggregated_delta_is_sum:
  assumes "reprocessMessages ChannelMessages ups since c gs conf dest = Some (res, s)"
  shows "\<exists>rs. channel_results ChannelMessages since conf (Channels gs) c = Some rs
            \<and> (\<forall>u. lookup (repChanges s) u
                     = sum_list (map (\<lambda>r. lookup (delta_of r) u) (filter scanned_ok rs)))"
proof -
  from assms obtain s1 where
    s1: "scanChannels ChannelMessages dest since conf (Channels gs) (start c) = Some s1"
    and s: "s = summarize dest
           ((applyChanges ups (guild_ID gs) dest (repChanges s1) s1)
              \<lparr>stats := SetUsers (stats (applyChanges ups (guild_ID gs) dest (repChanges s1) s1))
                          (uniqueUsers (applyChanges ups (guild_ID gs) dest (repChanges s1) s1))\<rparr>)"
    by (rule reprocessMessages_Some)
  from s have same: "repChanges s = repChanges s1"
    by (simp add: summarize_frame applyChanges_effect)
  from scanChannels_sum [OF s1] show ?thesis
    by (simp add: same start_sel lookup_def)
qed

lemma example_run_ok:
  "reprocessMessages example_fetch upsert_ok 10 None example_guild example_conf 99
     = Some ((\<lparr>MessagesProcessed = 2, RepGiven = 2, UsersAffected = 1\<rparr>, None),
             \<lparr>ctx = None,
              stats = \<lparr>MessagesProcessed = 2, RepGiven = 2, UsersAffected = 1\<rparr>,
              repChanges = [(42, 2)], channelErrors = 0, uniqueUsers = 1, userErrors = 0,
              trace = [insertUpdateUserRep 1 42 2 None]\<rparr>)"
  by (simp add: reprocessMessages_def example_guild_sel start_def example_scan_ok
      SetUsers_def summarize_def word_sless_numerals Add_def repCount_def aggregate_def
      upsert_ok_def)

lemma example_channel_results:
  "channel_results example_fetch 10 example_conf (Channels example_guild) None
     = Some [(1, [(42, 1)], None), (1, [(42, 1)], None)]"
  by (simp add: example_guild_sel example_scan_ok)

theorem aggregated_delta_is_sum_witness:
  "reprocessMessages example_fetch upsert_ok 10 None example_guild example_conf 99
     = Some ((\<lparr>MessagesProcessed = 2, RepGiven = 2, UsersAffected = 1\<rparr>, None),
             \<lparr>ctx = None,
              stats = \<lparr>MessagesProcessed = 2, RepGiven = 2, UsersAffected = 1\<rparr>,
              repChanges = [(42, 2)], channelErrors = 0, uniqueUsers = 1, userErrors = 0,
              trace = [insertUpdateUserRep 1 42 2 None]\<rparr>)
   \<and> lookup [(42, 2)] 42 = lookup [(42, 1)] 42 + lookup [(42, 1)] 42"
proof -
  from aggregated_delta_is_sum [OF example_run_ok] obtain rs where
    rs: "channel_results example_fetch 10 example_conf (Channels example_guild) None = Some rs"
    and sum: "\<And>u. lookup [(42, 2)] u
                = sum_list (map (\<lambda>r. lookup (delta_of r) u) (filter scanned_ok rs))"
    by auto
  from rs have "rs = [(1, [(42, 1)], None), (1, [(42, 1)], None)]"
    by (simp add: example_channel_results)
  with sum [of 42] have "lookup [(42, 2)] 42 = lookup [(42, 1)] 42 + lookup [(42, 1)] 42"
    by (simp add: scanned_ok_def delta_of_def)
  with example_run_ok show ?thesis by simp
qed

text \<open>
  C2 as amended. In a run that returns, the aggregated delta has each user once;
  \<open>insertUpdateUserRep\<close> is called once for every user whose aggregated amount is not zero
  and for no other, whatever the outcome of the calls before; the users-affected counter
  is the number of these calls, whether they succeeded or failed; the user errors are
  the number of those that failed.
\<close>

theorem users_affected_counts_attempts:
  assumes "reprocessMessages ChannelMessages ups since c gs conf dest = Some (res, s)"
  shows "distinct (map fst (repChanges s))
       \<and> upserts (trace s)
           = map (\<lambda>(u, a). insertUpdateUserRep (guild_ID gs) u a (ups (ctx s) (guild_ID gs) u a))
               (nonzero (repChanges s))
       \<and> UsersAffected (fst res) = of_nat (length (nonzero (repChanges s)))
       \<and> userErrors s
           = of_nat (length (filter (\<lambda>(u, a). ups (ctx s) (guild_ID gs) u a \<noteq> None)
                               (nonzero (repChanges s))))"
proof -
  from assms obtain s1 where
    s1: "scanChannels ChannelMessages dest since conf (Channels gs) (start c) = Some s1"
    and s: "s = summarize dest
           ((applyChanges ups (guild_ID gs) dest (repChanges s1) s1)
              \<lparr>stats := SetUsers (stats (applyChanges ups (guild_ID gs) dest (repChanges s1) s1))
                          (uniqueUsers (applyChanges ups (guild_ID gs) dest (repChanges s1) s1))\<rparr>)"
    and res: "res = (stats s, None)"
    by (rule reprocessMessages_Some)
  note frame = scanChannels_frame [OF s1, unfolded start_sel]
  note eff = applyChanges_effect [of ups "guild_ID gs" dest "repChanges s1" s1]
  from s have same: "repChanges s = repChanges s1" "ctx s = ctx s1"
    by (simp_all add: summarize_frame eff)
  from frame have d: "distinct (map fst (repChanges s))" by (simp add: same)
  from s frame have u: "upserts (trace s)
           = map (\<lambda>(u, a). insertUpdateUserRep (guild_ID gs) u a (ups (ctx s) (guild_ID gs) u a))
               (nonzero (repChanges s))"
    by (simp add: summarize_frame eff same)
  from s res frame have n: "UsersAffected (fst res) = of_nat (length (nonzero (repChanges s)))"
    by (simp add: summarize_frame eff same SetUsers_def)
  from s frame have e: "userErrors s
           = of_nat (length (filter (\<lambda>(u, a). ups (ctx s) (guild_ID gs) u a \<noteq> None)
                               (nonzero (repChanges s))))"
    by (simp add: summarize_frame eff same)
  from d u n e show ?thesis by blast
qed

lemma example_run_failing:
  "reprocessMessages example_fetch upsert_failing 10 None example_guild example_conf 99
     = Some ((\<lparr>MessagesProcessed = 2, RepGiven = 2, UsersAffected = 1\<rparr>, None),
             \<lparr>ctx = None,
              stats = \<lparr>MessagesProcessed = 2, RepGiven = 2, UsersAffected = 1\<rparr>,
              repChanges = [(42, 2)], channelErrors = 0, uniqueUsers = 1, userErrors = 1,
              trace = [insertUpdateUserRep 1 42 2 (Some (external_error ''db'')),
                       sendErrorMessage 99 (UserFailed 42 (external_error ''db'')),
                       sendErrorMessage 99 (Summary 0 1)]\<rparr>)"
  by (simp add: reprocessMessages_def example_guild_sel start_def example_scan_ok
      SetUsers_def summarize_def word_sless_numerals Add_def repCount_def aggregate_def
      upsert_failing_def)

theorem users_affected_counts_attempts_witness:
  "reprocessMessages example_fetch upsert_failing 10 None example_guild example_conf 99
     = Some ((\<lparr>MessagesProcessed = 2, RepGiven = 2, UsersAffected = 1\<rparr>, None),
             \<lparr>ctx = None,
              stats = \<lparr>MessagesProcessed = 2, RepGiven = 2, UsersAffected = 1\<rparr>,
              repChanges = [(42, 2)], channelErrors = 0, uniqueUsers = 1, userErrors = 1,
              trace = [insertUpdateUserRep 1 42 2 (Some (external_error ''db'')),
                       sendErrorMessage 99 (UserFailed 42 (external_error ''db'')),
                       sendErrorMessage 99 (Summary 0 1)]\<rparr>)
   \<and> upserts [insertUpdateUserRep 1 42 2 (Some (external_error ''db'')),
               sendErrorMessage 99 (UserFailed 42 (external_error ''db'')),
               sendErrorMessage 99 (Summary 0 1)]
       = map (\<lambda>(u, a). insertUpdateUserRep 1 u a (upsert_failing None 1 u a)) (nonzero [(42, 2)])
   \<and> (1 :: int64) = of_nat (length (nonzero [(42, 2)]))"
  using users_affected_counts_attempts [OF example_run_failing] example_run_failing
  by (simp add: example_guild_sel)

text \<open>
  C2 as stated fails where a call fails: the one user of the example is counted as affected
  although its update failed and no user was updated.
\<close>

theorem users_affected_counts_failed_update:
  "reprocessMessages example_fetch upsert_failing 10 None example_guild example_conf 99
     = Some ((\<lparr>MessagesProcessed = 2, RepGiven = 2, UsersAffected = 1\<rparr>, None),
             \<lparr>ctx = None,
              stats = \<lparr>MessagesProcessed = 2, RepGiven = 2, UsersAffected = 1\<rparr>,
              repChanges = [(42, 2)], channelErrors = 0, uniqueUsers = 1, userErrors = 1,
              trace = [insertUpdateUserRep 1 42 2 (Some (external_error ''db'')),
                       sendErrorMessage 99 (UserFailed 42 (external_error ''db'')),
                       sendErrorMessage 99 (Summary 0 1)]\<rparr>)
   \<and> updated_users [insertUpdateUserRep 1 42 2 (Some (external_error ''db'')),
                     sendErrorMessage 99 (UserFailed 42 (external_error ''db'')),
                     sendErrorMessage 99 (Summary 0 1)] = []
   \<and> (1 :: int64) \<noteq> of_nat (length ([] :: int64 list))"
  by (simp add: example_run_failing)

section \<open>Properties of the progress reporter\<close>

lemmas reporter_defs =
  on_tick_def updateIntervals_def schedule_def Second_def Minute_def Hour_def
  word_sle_eq

lemma sint_small: "k < 16 \<Longrightarrow> sint (word_of_nat k :: int64) = int k"
proof -
  assume "k < 16"
  then have "signed_take_bit 63 (int k) = int k"
    by (intro signed_take_bit_int_eq_self) simp_all
  then show ?thesis by (simp add: signed_of_nat)
qed

lemma five_ticks:
  assumes "k < 5"
  shows "word_sle (5 :: int64) (1 + of_nat k) \<longleftrightarrow> k = 4"
proof -
  have "(1 + of_nat k :: int64) = of_nat (Suc k)" by simp
  moreover from assms have "sint (of_nat (Suc k) :: int64) = int (Suc k)"
    by (intro sint_small) simp
  ultimately have "word_sle (5 :: int64) (1 + of_nat k) \<longleftrightarrow> 5 \<le> int (Suc k)"
    by (simp only: word_sle_eq) simp
  with assms show ?thesis by auto
qed


lemma five_ticks':
  "k < 5 \<Longrightarrow> word_sle (5 :: int64) (of_nat k + 1) \<longleftrightarrow> k = 4"
  using five_ticks [of k] by (simp add: add.commute)

lemma on_tick_phase:
  assumes "k < 5" and "b = 0 \<or> b = 5 \<or> b = 10"
  shows "on_tick st (state_after (b + k) ps) = Some (state_after (Suc (b + k)) (ps @ [Get st]))"
  using assms
  by (auto simp: state_after_def on_tick_def updateIntervals_def schedule_def Let_def
      five_ticks five_ticks')

lemma on_tick_early:
  assumes "n < 15"
  shows "on_tick st (state_after n ps) = Some (state_after (Suc n) (ps @ [Get st]))"
proof -
  have split: "n = 5 * (n div 5) + n mod 5" by simp
  from assms have b: "5 * (n div 5) = 0 \<or> 5 * (n div 5) = 5 \<or> 5 * (n div 5) = 10" by arith
  have k: "n mod 5 < 5" by simp
  from on_tick_phase [OF k b, of st ps] split show ?thesis by simp
qed

lemma on_tick_late:
  assumes "15 \<le> n"
  shows "on_tick st (state_after n ps) = Some (state_after (Suc n) (ps @ [Get st]))"
proof -
  from assms have "Suc n - 15 = Suc (n - 15)" by simp
  with assms show ?thesis
    by (simp add: state_after_def reporter_defs Let_def ac_simps)
qed

lemma on_tick_state_after:
  "on_tick st (state_after n ps) = Some (state_after (Suc n) (ps @ [Get st]))"
  by (cases "n < 15") (simp_all add: on_tick_early on_tick_late)

lemma ticks_state_after:
  "sendPeriodicUpdates (map ticker_C sts) (state_after n ps)
     = Some (state_after (n + length sts) (ps @ map Get sts), False)"
  by (induction sts arbitrary: n ps) (simp_all add: on_tick_state_after)

lemma reporter_start_state: "reporter_start = state_after 0 []"
  by (simp add: reporter_start_def state_after_def reporter_defs)

lemma schedule_mono: "m \<le> n \<Longrightarrow> word_sle (schedule m) (schedule n)"
  by (simp add: schedule_def Second_def Minute_def Hour_def word_sle_eq)

text \<open>
  C7. A reporter that is not stopped and has received any number of ticks has posted one
  update per tick and waits for the next tick with the period of the schedule: 10 seconds
  before each of the first 5 ticks, 1 minute before each of the next 5, 1 hour before each
  of the next 5, 24 hours before every tick after that. The period never gets shorter as
  more ticks arrive.
\<close>

theorem reporter_follows_schedule:
  "\<exists>r. sendPeriodicUpdates (map ticker_C sts) reporter_start = Some (r, False)
      \<and> ticker r = schedule (length sts)
      \<and> posted r = map Get sts
      \<and> (\<forall>more r'.
            sendPeriodicUpdates (map ticker_C (sts @ more)) reporter_start = Some (r', False)
            \<longrightarrow> word_sle (ticker r) (ticker r'))"
proof -
  let ?r = "state_after (length sts) (map Get sts)"
  have run: "sendPeriodicUpdates (map ticker_C xs) reporter_start
               = Some (state_after (length xs) (map Get xs), False)" for xs
    using ticks_state_after [of xs 0 "[]"] by (simp add: reporter_start_state)
  have "\<forall>more r'.
          sendPeriodicUpdates (map ticker_C (sts @ more)) reporter_start = Some (r', False)
          \<longrightarrow> word_sle (ticker ?r) (ticker r')"
    by (auto simp: run state_after_def schedule_mono simp del: map_append)
  with run [of sts] show ?thesis by (simp add: state_after_def)
qed

theorem reporter_follows_schedule_witness:
  "ticker (fst (the (sendPeriodicUpdates (map ticker_C (replicate 4 example_stats)) reporter_start)))
     = 10000000000
   \<and> ticker (fst (the (sendPeriodicUpdates (map ticker_C (replicate 4 example_stats @ [example_stats])) reporter_start)))
     = 60000000000
   \<and> word_sle
        (ticker (fst (the (sendPeriodicUpdates (map ticker_C (replicate 4 example_stats)) reporter_start))))
        (ticker (fst (the (sendPeriodicUpdates (map ticker_C (replicate 4 example_stats @ [example_stats]))
                             reporter_start))))"
proof -
  from reporter_follows_schedule [of "replicate 4 example_stats"] obtain r where
    r: "sendPeriodicUpdates (map ticker_C (replicate 4 example_stats)) reporter_start = Some (r, False)"
    and tr: "ticker r = schedule 4"
    and mono: "\<And>more r'.
        sendPeriodicUpdates (map ticker_C (replicate 4 example_stats @ more)) reporter_start = Some (r', False)
        \<Longrightarrow> word_sle (ticker r) (ticker r')"
    by auto
  from reporter_follows_schedule [of "replicate 4 example_stats @ [example_stats]"] obtain r' where
    r': "sendPeriodicUpdates (map ticker_C (replicate 4 example_stats @ [example_stats])) reporter_start
           = Some (r', False)"
    and tr': "ticker r' = schedule 5"
    by auto
  from mono [OF r'] have "word_sle (ticker r) (ticker r')" .
  with r r' tr tr' show ?thesis
    by (simp add: schedule_def Second_def Minute_def del: map_append replicate.simps
        sendPeriodicUpdates.simps)
qed

section \<open>Properties of the run and the reporter together\<close>

lemma on_tick_posted:
  "on_tick st r = Some r' \<Longrightarrow> posted r' = posted r @ [Get st]"
  by (auto simp: on_tick_def Let_def split: if_splits)

lemma quiet_start: "quiet system_start"
  by (simp add: quiet_def system_start_def reporter_start_def)

lemma quiet_step:
  assumes "quiet s" and "step a s = Some s'"
  shows "quiet s'"
proof (cases a)
  case (run_Add messages rep)
  with assms show ?thesis by (auto simp: quiet_def Add_def split: if_splits)
next
  case run_close
  with assms show ?thesis by (auto simp: quiet_def split: if_splits)
next
  case run_Wait
  with assms show ?thesis by (auto simp: quiet_def split: if_splits)
next
  case (run_SetUsers n)
  with assms show ?thesis by (auto simp: quiet_def SetUsers_def split: if_splits)
next
  case reporter_tick
  with assms(2) obtain r where
    run: "running s" and r: "on_tick (shared s) (goroutine s) = Some r"
    and s': "s' = s\<lparr>goroutine := r\<rparr>"
    by (auto split: if_splits option.splits)
  from assms(1) run have "UsersAffected (shared s) = 0" by (auto simp: quiet_def)
  with assms(1) on_tick_posted [OF r] show ?thesis
    by (auto simp: quiet_def s' Get_def)
next
  case reporter_stop
  with assms show ?thesis by (auto simp: quiet_def split: if_splits)
qed

lemma quiet_exec: "quiet s \<Longrightarrow> exec acts s = Some s' \<Longrightarrow> quiet s'"
proof (induction acts arbitrary: s)
  case Nil
  then show ?case by simp
next
  case (Cons a acts)
  from Cons.prems(2) obtain s1 where a: "step a s = Some s1" and rest: "exec acts s1 = Some s'"
    by (auto split: option.splits)
  from Cons.IH [OF quiet_step [OF Cons.prems(1) a] rest] show ?case .
qed

text \<open>
  C10. In every interleaving of the steps of the run and of the reporter that the stop
  channel and the wait group allow, every update the reporter has posted reports 0 users
  affected; the counter differs from 0 only when the run has set it, which is after the
  reporter has returned.
\<close>

theorem updates_report_zero_users:
  assumes "exec acts system_start = Some s"
  shows "(\<forall>p\<in>set (posted (goroutine s)). snd (snd p) = 0)
       \<and> (UsersAffected (shared s) \<noteq> 0 \<longrightarrow> at s = Finished \<and> \<not> running s)"
  using quiet_exec [OF quiet_start assms] by (auto simp: quiet_def)

lemma example_interleaving:
  "exec [run_Add 3 1, reporter_tick, run_close, reporter_tick, reporter_stop, run_Wait,
         run_SetUsers 1] system_start
     = Some \<lparr>shared = \<lparr>MessagesProcessed = 3, RepGiven = 1, UsersAffected = 1\<rparr>,
             at = Finished,
             goroutine = \<lparr>currentIntervalIdx = 0, updatesAtCurrentInterval = 2,
                          ticker = 10000000000, posted = [(3, 1, 0), (3, 1, 0)]\<rparr>,
             running = False\<rparr>"
  by (simp add: system_start_def reporter_start_def Add_def SetUsers_def Get_def
      reporter_defs Let_def)

theorem updates_report_zero_users_witness:
  "exec [run_Add 3 1, reporter_tick, run_close, reporter_tick, reporter_stop, run_Wait,
         run_SetUsers 1] system_start
     = Some \<lparr>shared = \<lparr>MessagesProcessed = 3, RepGiven = 1, UsersAffected = 1\<rparr>,
             at = Finished,
             goroutine = \<lparr>currentIntervalIdx = 0, updatesAtCurrentInterval = 2,
                          ticker = 10000000000, posted = [(3, 1, 0), (3, 1, 0)]\<rparr>,
             running = False\<rparr>
   \<and> list_all (\<lambda>p. snd (snd p) = 0) [(3, 1, 0), (3, 1, 0) :: int64 \<times> int64 \<times> int64]"
  using updates_report_zero_users [OF example_interleaving] example_interleaving
  by simp

section \<open>Properties of the status command\<close>

text \<open>
  C8. The switch assigns both variables in every branch, the default branch included, so its
  result does not depend on the values assigned before it: for every status string it is
  the colour and emoji computed from the status directly, and the embed built after the
  green default and the switch is the embed built from the status directly.
\<close>

theorem green_default_is_dead:
  "status_switch status v = severity_of_status status
   \<and> Command_sfstatus_embed st = direct_embed st
   \<and> Color (Command_sfstatus_embed st) = statusColor (severity_of_status (Status st))
   \<and> Title (Command_sfstatus_embed st)
       = statusEmoji (severity_of_status (Status st)) @ '' Salesforce Instance: '' @ Key st"
proof -
  have sw: "status_switch status v = severity_of_status status" for status v
    by (simp add: status_switch_def severity_of_status_def)
  then show ?thesis
    by (simp add: Command_sfstatus_embed_def direct_embed_def embed_of_def Let_def)
qed

theorem green_default_is_dead_witness:
  "status_switch ''BOGUS'' severity_default
     = \<lparr>statusColor = 0x95A5A6, statusEmoji = emoji_question\<rparr>"
  using green_default_is_dead [of "''BOGUS''" severity_default]
  by (simp add: severity_of_status_def)

end
